theory Spec2Isabelle
  imports Main "HOL-Library.Word"
begin

section \<open>Values shared by the consistency checker\<close>

text \<open>
  The development embeds the batch hasher and the secondary-side batch verifier of the
  replica-set consistency checker (\<^verbatim>\<open>DbCheckHasher\<close>, \<^verbatim>\<open>dbCheckBatchOnSecondary\<close>).
  Counters are the source's \<^verbatim>\<open>int64_t\<close> members, held as \<open>int\<close>: they count documents,
  keys and bytes of one batch and stay far from the 64-bit bounds. Raw record and key bytes
  are \<open>8 word\<close> lists. The storage engine, the BSON library and the key-string library are
  collaborators of the source; what the hasher reads from them is passed in as data
  (tables, record stores) or as functions held in records.
\<close>

type_synonym byte = "8 word"
type_synonym RecordId = int
type_synonym UUID = nat
type_synonym Date_t = int

datatype ErrorCodes =
    OK | NoSuchKey | KeyNotFound | IndexNotFound | NonConformantBSON | InvalidBSON
  | Interrupted | ExceededTimeLimit | SnapshotUnavailable | BadValue | InternalError

datatype Status = Status ErrorCodes string

fun code :: "Status \<Rightarrow> ErrorCodes" where
  "code (Status c r) = c"

fun reason :: "Status \<Rightarrow> string" where
  "reason (Status c r) = r"

definition Status_OK :: Status where
  "Status_OK = Status OK []"

definition isOK :: "Status \<Rightarrow> bool" where
  "isOK s = (code s = OK)"

text \<open>
  A call of the source ends in one of three ways: it returns, it throws a
  \<^verbatim>\<open>DBException\<close> (which carries a status; \<^verbatim>\<open>uassert\<close>, \<^verbatim>\<open>iassert\<close> and
  \<^verbatim>\<open>uassertStatusOK\<close> throw one), or it takes the process down (\<^verbatim>\<open>invariant\<close>, a null
  handle dereferenced).
\<close>

datatype 'a result = Returned 'a | Threw Status | Crashed

datatype BSONElement =
    BString string
  | BBool bool
  | BNumber int
  | BBinData "byte list"
  | BObject "(string \<times> BSONElement) list"
  | BArray "BSONElement list"
  | BTimestamp nat
  | BUUID nat
  | BMinKey
  | BMaxKey

type_synonym BSONObj = "(string \<times> BSONElement) list"

definition hasField :: "BSONObj \<Rightarrow> string \<Rightarrow> bool" where
  "hasField obj name = (name \<in> set (map fst obj))"

definition errorString :: "ErrorCodes \<Rightarrow> string" where
  "errorString c = (case c of
      OK \<Rightarrow> ''OK'' | NoSuchKey \<Rightarrow> ''NoSuchKey'' | KeyNotFound \<Rightarrow> ''KeyNotFound''
    | IndexNotFound \<Rightarrow> ''IndexNotFound'' | NonConformantBSON \<Rightarrow> ''NonConformantBSON''
    | InvalidBSON \<Rightarrow> ''InvalidBSON'' | Interrupted \<Rightarrow> ''Interrupted''
    | ExceededTimeLimit \<Rightarrow> ''ExceededTimeLimit''
    | SnapshotUnavailable \<Rightarrow> ''SnapshotUnavailable'' | BadValue \<Rightarrow> ''BadValue''
    | InternalError \<Rightarrow> ''InternalError'')"

definition Status_toString :: "Status \<Rightarrow> string" where
  "Status_toString s = (if isOK s then ''OK'' else errorString (code s) @ '': '' @ reason s)"

text \<open>Decimal rendering, for \<^verbatim>\<open>RecordId::toString\<close>.\<close>

definition digit :: "nat \<Rightarrow> char" where
  "digit d = ''0123456789'' ! d"

function decimal :: "nat \<Rightarrow> string" where
  "decimal n = (if n < 10 then [digit n] else decimal (n div 10) @ [digit (n mod 10)])"
  by pat_completeness auto
termination
  by (relation "measure id") auto

definition RecordId_toString :: "RecordId \<Rightarrow> string" where
  "RecordId_toString r =
     ''RecordId('' @ (if r < 0 then ''-'' else []) @ decimal (nat \<bar>r\<bar>) @ '')''"

text \<open>
  \<^verbatim>\<open>key_string::rehydrateKey\<close> puts the field names of a key pattern on the values of a
  key read from an index.
\<close>

fun rehydrateKey :: "BSONObj \<Rightarrow> BSONObj \<Rightarrow> BSONObj" where
  "rehydrateKey ((name, p) # pattern) ((n, v) # key) = (name, v) # rehydrateKey pattern key"
| "rehydrateKey pattern key = []"

section \<open>Health log entries\<close>

datatype SeverityEnum = Info | Warning | Error

datatype ScopeEnum = Scope_Cluster | Scope_Database | Scope_Collection | Scope_Document | Scope_Index

datatype OplogEntriesEnum = Op_Batch | Op_Collection | Op_Start | Op_Stop

datatype DbCheckValidationModeEnum =
  dataConsistency | dataConsistencyAndMissingIndexKeysCheck | extraIndexKeysCheck

datatype BSONValidateModeEnum = kDefault | kExtended | kFull

record SecondaryIndexCheckParameters =
  getValidateMode :: DbCheckValidationModeEnum
  getSecondaryIndex :: string
  getBsonValidateMode :: BSONValidateModeEnum

record NamespaceString =
  ns :: string
  isChangeStreamPreImagesCollection :: bool
  isConfigImagesCollection :: bool
  isChangeCollection :: bool

text \<open>
  A health log entry as the source fills it, up to its \<^verbatim>\<open>timestamp\<close>. The source
  stamps every entry with \<^verbatim>\<open>Date_t::now()\<close> when it builds it; that field is not part
  of the record, so an entry here stands for what the source writes apart from the time
  of writing. Two entries of the source written at different times differ in that field
  even when they are equal here; for that reason no property below compares the entries
  that two runs write.
\<close>

record HealthLogEntry =
  entry_nss :: "NamespaceString option"
  entry_collectionUUID :: "UUID option"
  severity :: SeverityEnum
  scope :: ScopeEnum
  msg :: string
  operation :: string
  entry_data :: "BSONObj option"

type_synonym HealthLog = "HealthLogEntry list"

fun renderForHealthLog :: "OplogEntriesEnum \<Rightarrow> string" where
  "renderForHealthLog Op_Batch = ''dbCheckBatch''"
| "renderForHealthLog Op_Collection = ''dbCheckCollection''"
| "renderForHealthLog Op_Start = ''dbCheckStart''"
| "renderForHealthLog Op_Stop = ''dbCheckStop''"

fun renderModeForHealthLog :: "DbCheckValidationModeEnum \<Rightarrow> string" where
  "renderModeForHealthLog dataConsistency = ''dataConsistency''"
| "renderModeForHealthLog dataConsistencyAndMissingIndexKeysCheck =
     ''dataConsistencyAndMissingIndexKeysCheck''"
| "renderModeForHealthLog extraIndexKeysCheck = ''extraIndexKeysCheck''"

fun renderBsonValidateMode :: "BSONValidateModeEnum \<Rightarrow> string" where
  "renderBsonValidateMode kDefault = ''kDefault''"
| "renderBsonValidateMode kExtended = ''kExtended''"
| "renderBsonValidateMode kFull = ''kFull''"

text \<open>The generated serializer of the check parameters.\<close>

definition parameters_toBSON :: "SecondaryIndexCheckParameters \<Rightarrow> BSONObj" where
  "parameters_toBSON p =
     [(''validateMode'', BString (renderModeForHealthLog (getValidateMode p))),
      (''secondaryIndex'', BString (getSecondaryIndex p)),
      (''bsonValidateMode'', BString (renderBsonValidateMode (getBsonValidateMode p)))]"

definition dbCheckHealthLogEntry ::
  "SecondaryIndexCheckParameters option \<Rightarrow> NamespaceString option \<Rightarrow> UUID option \<Rightarrow>
   SeverityEnum \<Rightarrow> string \<Rightarrow> ScopeEnum \<Rightarrow> OplogEntriesEnum \<Rightarrow> BSONObj option \<Rightarrow>
   HealthLogEntry" where
  "dbCheckHealthLogEntry parameters nss collectionUUID sev m sc op dat =
     \<lparr> entry_nss = nss,
       entry_collectionUUID = collectionUUID,
       severity = sev,
       scope = sc,
       msg = m,
       operation = renderForHealthLog op,
       entry_data =
         (case dat of
            Some dataBSON \<Rightarrow>
              (case parameters of
                 Some p \<Rightarrow>
                   Some (dataBSON @ [(''dbCheckParameters'', BObject (parameters_toBSON p))])
               | None \<Rightarrow> Some dataBSON)
          | None \<Rightarrow>
              (case parameters of
                 Some p \<Rightarrow> Some [(''dbCheckParameters'', BObject (parameters_toBSON p))]
               | None \<Rightarrow> None)) \<rparr>"

definition errorData :: "Status \<Rightarrow> BSONObj \<Rightarrow> BSONObj" where
  "errorData err context =
     [(''success'', BBool False), (''error'', BString (Status_toString err)),
      (''context'', BObject context)]"

definition dbCheckErrorHealthLogEntry ::
  "SecondaryIndexCheckParameters option \<Rightarrow> NamespaceString option \<Rightarrow> UUID option \<Rightarrow>
   string \<Rightarrow> ScopeEnum \<Rightarrow> OplogEntriesEnum \<Rightarrow> Status \<Rightarrow> BSONObj \<Rightarrow> HealthLogEntry" where
  "dbCheckErrorHealthLogEntry parameters nss collectionUUID m sc op err context =
     dbCheckHealthLogEntry parameters nss collectionUUID Error m sc op
       (Some (errorData err context))"

text \<open>The warning entry is always of cluster scope: the source passes
  \<^verbatim>\<open>ScopeEnum::Cluster\<close> on, not its \<^verbatim>\<open>scope\<close> argument.\<close>

definition dbCheckWarningHealthLogEntry ::
  "SecondaryIndexCheckParameters option \<Rightarrow> NamespaceString \<Rightarrow> UUID option \<Rightarrow>
   string \<Rightarrow> ScopeEnum \<Rightarrow> OplogEntriesEnum \<Rightarrow> Status \<Rightarrow> BSONObj \<Rightarrow> HealthLogEntry" where
  "dbCheckWarningHealthLogEntry parameters nss collectionUUID m sc op err context =
     dbCheckHealthLogEntry parameters (Some nss) collectionUUID Warning m Scope_Cluster op
       (Some (errorData err context))"

section \<open>Indexes, cursors and the collection\<close>

text \<open>
  An entry of a sorted index: the serialized key without its trailing row-identifier
  (the first \<^verbatim>\<open>getSizeWithoutRecordId()\<close> bytes of the key string) and the
  row-identifier the entry points at.
\<close>

record IndexKeyEntry =
  keyString :: "byte list"
  loc :: RecordId

text \<open>A key string handed to a cursor: the key bytes, with or without a row-identifier
  appended.\<close>

type_synonym KeyStringValue = "byte list \<times> RecordId option"

text \<open>
  \<^verbatim>\<open>key_string::compare\<close>: bytewise comparison of two buffers, the shorter one first
  when one is a prefix of the other; negative, zero or positive.
\<close>

fun key_string_compare :: "byte list \<Rightarrow> byte list \<Rightarrow> int" where
  "key_string_compare [] [] = 0"
| "key_string_compare [] (b # bs) = - 1"
| "key_string_compare (a # as) [] = 1"
| "key_string_compare (a # as) (b # bs) =
     (if a < b then - 1 else if b < a then 1 else key_string_compare as bs)"

text \<open>
  Modelled from the spec: the storage engine's cursor over a sorted index ("ordered
  range-scan cursor with seek/end-position over a named secondary-index key space").
  An index is the list of its entries in index order. \<open>entryBefore\<close> says that an entry
  sorts strictly before a search key; \<open>seekForKeyString\<close> gives the first entry at or
  after the search key (the closest one when the exact key string does not exist);
  \<open>cursorEntries\<close> is what a cursor with an inclusive end position yields from a seek
  onwards, through \<^verbatim>\<open>nextKeyString\<close>.
\<close>

definition entryBefore :: "IndexKeyEntry \<Rightarrow> KeyStringValue \<Rightarrow> bool" where
  "entryBefore e key =
     (let c = key_string_compare (keyString e) (fst key) in
      if c < 0 then True
      else if c = 0 then (case snd key of None \<Rightarrow> False | Some rid \<Rightarrow> loc e < rid)
      else False)"

definition seekForKeyString :: "IndexKeyEntry list \<Rightarrow> KeyStringValue \<Rightarrow> IndexKeyEntry option" where
  "seekForKeyString table key = find (\<lambda>e. \<not> entryBefore e key) table"

definition cursorEntries :: "IndexKeyEntry list \<Rightarrow> byte list \<Rightarrow> byte list \<Rightarrow> IndexKeyEntry list" where
  "cursorEntries table seekKey endKey =
     takeWhile (\<lambda>e. key_string_compare (keyString e) endKey \<le> 0)
       (dropWhile (\<lambda>e. entryBefore e (seekKey, None)) table)"

text \<open>
  An index catalog entry with its descriptor and its access method. \<open>getKeys\<close> gives the
  serialized keys (without row-identifier) the index expects for a document, in the order
  of the key-string set; \<open>resetToKey\<close> and \<open>toBsonSafe\<close> are the key-string builder and
  decoder under the index's ordering and version; \<open>sortedData\<close> is the index table.
\<close>

record IndexCatalogEntry =
  indexName :: string
  isIdIndex :: bool
  isPartial :: bool
  filterMatchesBSON :: "BSONObj \<Rightarrow> bool"
  getAccessMethodName :: string
  unique :: bool
  keyPattern :: BSONObj
  infoObj :: BSONObj
  getKeys :: "BSONObj \<Rightarrow> byte list list"
  resetToKey :: "BSONObj \<Rightarrow> byte list"
  toBsonSafe :: "byte list \<Rightarrow> BSONObj"
  sortedData :: "IndexKeyEntry list"

definition IndexNames_BTREE :: string where
  "IndexNames_BTREE = []"

definition IndexNames_HASHED :: string where
  "IndexNames_HASHED = ''hashed''"

text \<open>What \<^verbatim>\<open>PlanExecutor::getNext\<close> does, call after call: it advances to a key and a
  row-identifier or throws; after the last element of the list it reports \<open>IS_EOF\<close>.\<close>

datatype ExecState = ADVANCED | IS_EOF

datatype ExecResult = Advanced BSONObj RecordId | GetNextThrows Status

text \<open>
  The collection as the hasher reads it. \<open>planExecutor\<close> stands for the executor the
  internal planner builds for a pair of bounds (an \<^verbatim>\<open>_id\<close> index scan, or a collection
  scan of a clustered collection; end bound included only); \<open>keyForDoc\<close> is the status of
  the clustered-key conversion of a bound.
\<close>

record Collection =
  coll_ns :: NamespaceString
  coll_uuid :: UUID
  isClustered :: bool
  capped :: bool
  indexCatalog :: "IndexCatalogEntry list"
  findRecord :: "RecordId \<Rightarrow> byte list option"
  planExecutor :: "BSONObj \<Rightarrow> BSONObj \<Rightarrow> ExecResult list"
  keyForDoc :: "BSONObj \<Rightarrow> Status"

definition findIdIndex :: "Collection \<Rightarrow> IndexCatalogEntry option" where
  "findIdIndex coll = find isIdIndex (indexCatalog coll)"

definition findIndexByName :: "Collection \<Rightarrow> string \<Rightarrow> IndexCatalogEntry option" where
  "findIndexByName coll name = find (\<lambda>e. indexName e = name) (indexCatalog coll)"

text \<open>The BSON library: structural validation of raw bytes, the parsed view of a record
  and the size that view reports.\<close>

record BSONLibrary =
  validateBSON :: "byte list \<Rightarrow> BSONValidateModeEnum \<Rightarrow> Status"
  toBson :: "byte list \<Rightarrow> BSONObj"
  objsize :: "byte list \<Rightarrow> nat"

text \<open>
  The operation context: the outcome of the interruption check of the \<open>i\<close>-th loop
  iteration, and the clock read at the end of the \<open>i\<close>-th iteration.
\<close>

record OperationContext =
  checkForInterruptNoAssert :: "nat \<Rightarrow> Status"
  now :: "nat \<Rightarrow> Date_t"

section \<open>The hasher\<close>

text \<open>
  The MD5 accumulator is held as the bytes appended to it so far: \<^verbatim>\<open>md5_append\<close>
  extends them, and the digest is a function of them alone.
\<close>

type_synonym md5_state_t = "byte list"

definition md5_init_state :: md5_state_t where
  "md5_init_state = []"

definition md5_append :: "md5_state_t \<Rightarrow> byte list \<Rightarrow> nat \<Rightarrow> md5_state_t" where
  "md5_append st buf nbytes = st @ take nbytes buf"

record DbCheckHasher =
  m_state :: md5_state_t
  m_maxKey :: BSONObj
  m_indexName :: "string option"
  m_maxCount :: int
  m_maxBytes :: int
  m_secondaryIndexCheckParameters :: "SecondaryIndexCheckParameters option"
  m_exec :: "ExecResult list option"
  m_indexes :: "IndexCatalogEntry list"
  m_missingIndexKeys :: "BSONObj list"
  m_countDocsSeen :: int
  m_countKeysSeen :: int
  m_bytesSeen :: int
  m_lastKeySeen :: BSONObj
  m_nConsecutiveIdenticalIndexKeysSeenAtEnd :: int

definition missingKeysMode :: "SecondaryIndexCheckParameters option \<Rightarrow> bool" where
  "missingKeysMode parameters =
     (case parameters of
        None \<Rightarrow> False
      | Some p \<Rightarrow> getValidateMode p = dataConsistencyAndMissingIndexKeysCheck)"

text \<open>
  The constructor. Counters start at zero and the last key is the empty object (the
  member initialisers of the class). Without an index name it needs the \<^verbatim>\<open>_id\<close> index,
  or the clustered key of both bounds, and throws otherwise.
\<close>

definition newHasher ::
  "BSONObj \<Rightarrow> SecondaryIndexCheckParameters option \<Rightarrow> string option \<Rightarrow> int \<Rightarrow> int \<Rightarrow>
   ExecResult list option \<Rightarrow> IndexCatalogEntry list \<Rightarrow> DbCheckHasher" where
  "newHasher end parameters name maxCount maxBytes exec indexes =
     \<lparr> m_state = md5_init_state,
       m_maxKey = end,
       m_indexName = name,
       m_maxCount = maxCount,
       m_maxBytes = maxBytes,
       m_secondaryIndexCheckParameters = parameters,
       m_exec = exec,
       m_indexes = indexes,
       m_missingIndexKeys = [],
       m_countDocsSeen = 0,
       m_countKeysSeen = 0,
       m_bytesSeen = 0,
       m_lastKeySeen = [],
       m_nConsecutiveIdenticalIndexKeysSeenAtEnd = 0 \<rparr>"

definition DbCheckHasher_new ::
  "Collection \<Rightarrow> BSONObj \<Rightarrow> BSONObj \<Rightarrow> SecondaryIndexCheckParameters option \<Rightarrow>
   string option \<Rightarrow> int \<Rightarrow> int \<Rightarrow> DbCheckHasher result" where
  "DbCheckHasher_new collection start end parameters name maxCount maxBytes =
     (let indexes =
            (if missingKeysMode parameters
             then filter (\<lambda>entry. \<not> isIdIndex entry) (indexCatalog collection)
             else [])
      in case name of
           Some n \<Rightarrow> Returned (newHasher end parameters name maxCount maxBytes None indexes)
         | None \<Rightarrow>
             if \<not> isClustered collection then
               (case findIdIndex collection of
                  None \<Rightarrow> Threw (Status IndexNotFound ''dbCheck needs _id index'')
                | Some desc \<Rightarrow>
                    Returned (newHasher end parameters name maxCount maxBytes
                                (Some (planExecutor collection start end)) indexes))
             else if \<not> isOK (keyForDoc collection start) then Threw (keyForDoc collection start)
             else if \<not> isOK (keyForDoc collection end) then Threw (keyForDoc collection end)
             else Returned (newHasher end parameters name maxCount maxBytes
                              (Some (planExecutor collection start end)) indexes))"

definition total :: "(byte list \<Rightarrow> string) \<Rightarrow> DbCheckHasher \<Rightarrow> string" where
  "total md5 h = md5 (m_state h)"

definition lastKeySeen :: "DbCheckHasher \<Rightarrow> BSONObj" where
  "lastKeySeen h = m_lastKeySeen h"

definition bytesSeen :: "DbCheckHasher \<Rightarrow> int" where
  "bytesSeen h = m_bytesSeen h"

definition docsSeen :: "DbCheckHasher \<Rightarrow> int" where
  "docsSeen h = m_countDocsSeen h"

definition keysSeen :: "DbCheckHasher \<Rightarrow> int" where
  "keysSeen h = m_countKeysSeen h"

definition countSeen :: "DbCheckHasher \<Rightarrow> int" where
  "countSeen h = docsSeen h + keysSeen h"

definition nConsecutiveIdenticalIndexKeysSeenAtEnd :: "DbCheckHasher \<Rightarrow> int" where
  "nConsecutiveIdenticalIndexKeysSeenAtEnd h = m_nConsecutiveIdenticalIndexKeysSeenAtEnd h"

definition canHashForCollectionCheck :: "BSONLibrary \<Rightarrow> DbCheckHasher \<Rightarrow> byte list \<Rightarrow> bool" where
  "canHashForCollectionCheck bson h obj =
     (if countSeen h = 0 then True
      else if m_bytesSeen h + int (objsize bson obj) > m_maxBytes h then False
      else if countSeen h + 1 > m_maxCount h then False
      else True)"

section \<open>The index-key validator\<close>

text \<open>A line of the server's diagnostic log (\<^verbatim>\<open>LOGV2_DEBUG\<close>): its id, its debug level,
  its message and the index it names.\<close>

record DebugLogLine =
  logId :: nat
  debugLevel :: nat
  logMessage :: string
  logIndexName :: string

definition missingKeyReport :: "IndexCatalogEntry \<Rightarrow> RecordId \<Rightarrow> KeyStringValue \<Rightarrow> BSONObj" where
  "missingKeyReport entry currentRecordId key =
     [(''indexName'', BString (indexName entry)),
      (''keyString'', BObject (rehydrateKey (keyPattern entry) (toBsonSafe entry (fst key)))),
      (''expectedRecordId'', BString (RecordId_toString currentRecordId)),
      (''indexSpec'', BObject (infoObj entry))]"

text \<open>The inner loop over the expected keys of one index: one seek per key, counted as a
  key seen; a key is reported when the seek finds no entry or an entry of another
  row-identifier.\<close>

fun probeKeys ::
  "IndexCatalogEntry \<Rightarrow> RecordId \<Rightarrow> KeyStringValue list \<Rightarrow> DbCheckHasher \<Rightarrow> DbCheckHasher" where
  "probeKeys entry currentRecordId [] h = h"
| "probeKeys entry currentRecordId (key # keyStrings) h =
     (let ksEntry = seekForKeyString (sortedData entry) key;
          h1 = h\<lparr>m_countKeysSeen := m_countKeysSeen h + 1\<rparr>;
          isMissing = (case ksEntry of None \<Rightarrow> True | Some e \<Rightarrow> loc e \<noteq> currentRecordId);
          h2 = (if isMissing
                then h1\<lparr>m_missingIndexKeys :=
                          m_missingIndexKeys h1 @ [missingKeyReport entry currentRecordId key]\<rparr>
                else h1)
      in probeKeys entry currentRecordId keyStrings h2)"

definition expectedKeyStrings ::
  "IndexCatalogEntry \<Rightarrow> BSONObj \<Rightarrow> RecordId \<Rightarrow> KeyStringValue list" where
  "expectedKeyStrings entry currentObj currentRecordId =
     (let isUnique = unique entry in
      map (\<lambda>k. (k, if isUnique then None else Some currentRecordId)) (getKeys entry currentObj))"

fun validateIndexes ::
  "BSONObj \<Rightarrow> RecordId \<Rightarrow> IndexCatalogEntry list \<Rightarrow> DbCheckHasher \<times> DebugLogLine list \<Rightarrow>
   DbCheckHasher \<times> DebugLogLine list" where
  "validateIndexes currentObj currentRecordId [] (h, dbg) = (h, dbg)"
| "validateIndexes currentObj currentRecordId (entry # entries) (h, dbg) =
     (if isPartial entry \<and> \<not> filterMatchesBSON entry currentObj
      then validateIndexes currentObj currentRecordId entries (h, dbg)
      else if getAccessMethodName entry \<noteq> IndexNames_BTREE \<and>
              getAccessMethodName entry \<noteq> IndexNames_HASHED
      then validateIndexes currentObj currentRecordId entries
             (h, dbg @ [\<lparr> logId = 8033900, debugLevel = 3,
                          logMessage = ''Skip checking unsupported index.'',
                          logIndexName = indexName entry \<rparr>])
      else validateIndexes currentObj currentRecordId entries
             (probeKeys entry currentRecordId
                (expectedKeyStrings entry currentObj currentRecordId) h, dbg))"

definition validateMissingKeys ::
  "BSONObj \<Rightarrow> RecordId \<Rightarrow> DbCheckHasher \<Rightarrow> Status \<times> DbCheckHasher \<times> DebugLogLine list" where
  "validateMissingKeys currentObj currentRecordId h =
     (let (h', dbg) = validateIndexes currentObj currentRecordId (m_indexes h) (h, []) in
      if length (m_missingIndexKeys h') > 0
      then (Status NoSuchKey ''Document has missing index keys'', h', dbg)
      else (Status_OK, h', dbg))"

section \<open>Hashing a collection range\<close>

definition recordContext :: "RecordId \<Rightarrow> BSONObj \<Rightarrow> BSONObj" where
  "recordContext currentRecordId rehydratedObjId =
     [(''recordID'', BString (RecordId_toString currentRecordId)),
      (''objId'', BObject rehydratedObjId)]"

definition missingRecordEntry ::
  "DbCheckHasher \<Rightarrow> Collection \<Rightarrow> RecordId \<Rightarrow> BSONObj \<Rightarrow> HealthLogEntry" where
  "missingRecordEntry h collPtr currentRecordId rehydratedObjId =
     dbCheckErrorHealthLogEntry (m_secondaryIndexCheckParameters h)
       (Some (coll_ns collPtr)) (Some (coll_uuid collPtr))
       ''Error fetching record from record id'' Scope_Document Op_Batch
       (Status KeyNotFound ''Error fetching record from record id'')
       (recordContext currentRecordId rehydratedObjId)"

definition malformedEntry ::
  "DbCheckHasher \<Rightarrow> Collection \<Rightarrow> Status \<Rightarrow> RecordId \<Rightarrow> BSONObj \<Rightarrow> HealthLogEntry" where
  "malformedEntry h collPtr status currentRecordId rehydratedObjId =
     (if code status \<noteq> NonConformantBSON
      then dbCheckErrorHealthLogEntry (m_secondaryIndexCheckParameters h)
             (Some (coll_ns collPtr)) (Some (coll_uuid collPtr))
             ''Document is not well-formed BSON'' Scope_Document Op_Batch status
             (recordContext currentRecordId rehydratedObjId)
      else dbCheckWarningHealthLogEntry (m_secondaryIndexCheckParameters h)
             (coll_ns collPtr) (Some (coll_uuid collPtr))
             ''Document is not well-formed BSON'' Scope_Document Op_Batch status
             (recordContext currentRecordId rehydratedObjId))"

definition missingIndexKeysEntry ::
  "DbCheckHasher \<Rightarrow> Collection \<Rightarrow> Status \<Rightarrow> RecordId \<Rightarrow> BSONObj \<Rightarrow> HealthLogEntry" where
  "missingIndexKeysEntry h collPtr status currentRecordId rehydratedObjId =
     dbCheckErrorHealthLogEntry (m_secondaryIndexCheckParameters h)
       (Some (coll_ns collPtr)) (Some (coll_uuid collPtr))
       ''Document has missing index keys'' Scope_Document Op_Batch status
       (recordContext currentRecordId rehydratedObjId @
        [(''missingIndexKeys'', BArray (map BObject (m_missingIndexKeys h)))])"

text \<open>The validation of the raw record bytes, run in the missing-index-keys mode only;
  it writes to the health log and changes nothing else.\<close>

definition validateRecord ::
  "BSONLibrary \<Rightarrow> Collection \<Rightarrow> DbCheckHasher \<Rightarrow> byte list \<Rightarrow> RecordId \<Rightarrow> BSONObj \<Rightarrow>
   HealthLog \<Rightarrow> HealthLog" where
  "validateRecord bson collPtr h record currentRecordId rehydratedObjId log =
     (case m_secondaryIndexCheckParameters h of
        None \<Rightarrow> log
      | Some p \<Rightarrow>
          if getValidateMode p = dataConsistencyAndMissingIndexKeysCheck then
            (let status = validateBSON bson record (getBsonValidateMode p) in
             if \<not> isOK status
             then log @ [malformedEntry h collPtr status currentRecordId rehydratedObjId]
             else log)
          else log)"

text \<open>The missing-index-keys check of one accepted document.\<close>

definition checkMissingKeys ::
  "Collection \<Rightarrow> DbCheckHasher \<Rightarrow> BSONObj \<Rightarrow> RecordId \<Rightarrow> BSONObj \<Rightarrow> HealthLog \<Rightarrow>
   DbCheckHasher \<times> HealthLog" where
  "checkMissingKeys collPtr h currentObj currentRecordId rehydratedObjId log =
     (if missingKeysMode (m_secondaryIndexCheckParameters h) then
        (let (status, h1, dbg) =
               validateMissingKeys currentObj currentRecordId (h\<lparr>m_missingIndexKeys := []\<rparr>)
         in if \<not> isOK status
            then (h1, log @ [missingIndexKeysEntry h1 collPtr status currentRecordId
                               rehydratedObjId])
            else (h1, log))
      else (h, log))"

text \<open>How the scan loop is left: through its condition or a \<^verbatim>\<open>break\<close> (with the last
  executor state), by a \<^verbatim>\<open>return\<close>, or by an exception. The failpoint
  \<^verbatim>\<open>SleepDbCheckInBatch\<close> and the data throttle only delay an iteration; they change no
  result and are left out.\<close>

datatype LoopExit = ExitLoop ExecState | ReturnStatus Status | Throws Status

fun collectionLoop ::
  "OperationContext \<Rightarrow> BSONLibrary \<Rightarrow> Collection \<Rightarrow> Date_t \<Rightarrow> nat \<Rightarrow> ExecResult list \<Rightarrow>
   DbCheckHasher \<Rightarrow> HealthLog \<Rightarrow> LoopExit \<times> DbCheckHasher \<times> HealthLog" where
  "collectionLoop opCtx bson collPtr deadline i [] h log = (ExitLoop IS_EOF, h, log)"
| "collectionLoop opCtx bson collPtr deadline i (GetNextThrows e # exec) h log =
     (Throws e, h, log)"
| "collectionLoop opCtx bson collPtr deadline i (Advanced currentObjId currentRecordId # exec)
     h log =
     (if \<not> isOK (checkForInterruptNoAssert opCtx i)
      then (Throws (checkForInterruptNoAssert opCtx i), h, log)
      else
        let rehydratedObjId = rehydrateKey [(''_id'', BNumber 1)] currentObjId in
        case findRecord collPtr currentRecordId of
          None \<Rightarrow>
            collectionLoop opCtx bson collPtr deadline (Suc i) exec h
              (log @ [missingRecordEntry h collPtr currentRecordId rehydratedObjId])
        | Some record \<Rightarrow>
            let log1 = validateRecord bson collPtr h record currentRecordId rehydratedObjId log;
                currentObj = toBson bson record
            in if \<not> hasField currentObj ''_id''
               then (ReturnStatus
                       (Status NoSuchKey
                          (''Document with record ID '' @ RecordId_toString currentRecordId @
                           '' missing _id'')), h, log1)
               else if \<not> canHashForCollectionCheck bson h record
               then (ReturnStatus Status_OK, h, log1)
               else
                 let (h1, log2) =
                       checkMissingKeys collPtr h currentObj currentRecordId rehydratedObjId log1;
                     h2 = h1\<lparr> m_lastKeySeen := rehydratedObjId,
                              m_countDocsSeen := m_countDocsSeen h1 + 1,
                              m_bytesSeen := m_bytesSeen h1 + int (objsize bson record),
                              m_state := md5_append (m_state h1) record (length record) \<rparr>
                 in if now opCtx i > deadline
                    then (ExitLoop ADVANCED, h2, log2)
                    else collectionLoop opCtx bson collPtr deadline (Suc i) exec h2 log2)"

definition hashForCollectionCheck ::
  "OperationContext \<Rightarrow> BSONLibrary \<Rightarrow> Collection \<Rightarrow> Date_t \<Rightarrow> DbCheckHasher \<Rightarrow> HealthLog \<Rightarrow>
   Status result \<times> DbCheckHasher \<times> HealthLog" where
  "hashForCollectionCheck opCtx bson collPtr deadline h log =
     (case m_exec h of
        None \<Rightarrow> (Crashed, h, log)
      | Some exec \<Rightarrow>
          (case collectionLoop opCtx bson collPtr deadline 0 exec h log of
             (ExitLoop lastState, h', log') \<Rightarrow>
               (Returned Status_OK,
                if lastState = IS_EOF then h'\<lparr>m_lastKeySeen := m_maxKey h'\<rparr> else h', log')
           | (ReturnStatus status, h', log') \<Rightarrow> (Returned status, h', log')
           | (Throws e, h', log') \<Rightarrow> (Threw e, h', log')))"

section \<open>Hashing an index key range\<close>

fun indexLoop ::
  "OperationContext \<Rightarrow> IndexCatalogEntry \<Rightarrow> int \<Rightarrow> byte list \<Rightarrow> nat \<Rightarrow> IndexKeyEntry list \<Rightarrow>
   DbCheckHasher \<Rightarrow> Status option \<times> DbCheckHasher" where
  "indexLoop opCtx iam maxConsecutive batchEndWithoutRecordId i [] h = (None, h)"
| "indexLoop opCtx iam maxConsecutive batchEndWithoutRecordId i (currEntry # entries) h =
     (if \<not> isOK (checkForInterruptNoAssert opCtx i)
      then (Some (checkForInterruptNoAssert opCtx i), h)
      else
        let keyStringBson = toBsonSafe iam (keyString currEntry);
            sizeWithoutRecordId = length (keyString currEntry);
            h1 = h\<lparr> m_bytesSeen := m_bytesSeen h + int sizeWithoutRecordId,
                     m_countKeysSeen := m_countKeysSeen h + 1,
                     m_state := md5_append (m_state h) (keyString currEntry) sizeWithoutRecordId,
                     m_lastKeySeen := keyStringBson \<rparr>;
            comparisonWithoutRecordId =
              key_string_compare (keyString currEntry) batchEndWithoutRecordId
        in if comparisonWithoutRecordId = 0 then
             (let h2 = h1\<lparr> m_nConsecutiveIdenticalIndexKeysSeenAtEnd :=
                              m_nConsecutiveIdenticalIndexKeysSeenAtEnd h1 + 1 \<rparr>
              in if m_nConsecutiveIdenticalIndexKeysSeenAtEnd h2 \<ge> maxConsecutive
                 then (None, h2)
                 else indexLoop opCtx iam maxConsecutive batchEndWithoutRecordId (Suc i)
                        entries h2)
           else indexLoop opCtx iam maxConsecutive batchEndWithoutRecordId (Suc i) entries h1)"

text \<open>
  \<open>maxConsecutive\<close> is the value of the server parameter
  \<^verbatim>\<open>dbCheckMaxConsecutiveIdenticalIndexKeysPerSnapshot\<close>. The index cursor throttles its
  reads; throttling changes no result and is left out.
\<close>

definition hashForExtraIndexKeysCheck ::
  "OperationContext \<Rightarrow> int \<Rightarrow> Collection \<Rightarrow> BSONObj \<Rightarrow> BSONObj \<Rightarrow> DbCheckHasher \<Rightarrow>
   Status result \<times> DbCheckHasher" where
  "hashForExtraIndexKeysCheck opCtx maxConsecutive collection batchStartBson batchEndBson h =
     (case m_indexName h of
        None \<Rightarrow> (Crashed, h)
      | Some name \<Rightarrow>
          (case findIndexByName collection name of
             None \<Rightarrow> (Crashed, h)
           | Some iam \<Rightarrow>
               let batchStartWithoutRecordId = resetToKey iam batchStartBson;
                   batchEndWithoutRecordId = resetToKey iam batchEndBson;
                   h0 = h\<lparr>m_nConsecutiveIdenticalIndexKeysSeenAtEnd := 0\<rparr>
               in case indexLoop opCtx iam maxConsecutive batchEndWithoutRecordId 0
                         (cursorEntries (sortedData iam) batchStartWithoutRecordId
                            batchEndWithoutRecordId) h0 of
                    (Some e, h') \<Rightarrow> (Threw e, h')
                  | (None, h') \<Rightarrow>
                      (Returned Status_OK,
                       if m_countKeysSeen h' = 0 then h'\<lparr>m_lastKeySeen := m_maxKey h'\<rparr>
                       else h')))"

section \<open>The batch verifier on a secondary\<close>







definition int64_max :: int where
  "int64_max = 2 ^ 63 - 1"

definition Date_t_max :: Date_t where
  "Date_t_max = 2 ^ 63 - 1"







section \<open>The validator's report in the words of the specification\<close>

text \<open>
  An index is checked for a document unless its partial-filter predicate excludes the
  document or its kind is neither B-tree nor hashed; an index of an unsupported kind
  that is not excluded gets a line in the diagnostic log. The keys probed for a checked
  index are the document's expected keys, without the row-identifier for a unique index
  and with it otherwise. A probe misses when the seek finds no entry or an entry of
  another row-identifier.
\<close>

definition indexChecked :: "IndexCatalogEntry \<Rightarrow> BSONObj \<Rightarrow> bool" where
  "indexChecked entry currentObj =
     (\<not> (isPartial entry \<and> \<not> filterMatchesBSON entry currentObj) \<and>
      (getAccessMethodName entry = IndexNames_BTREE \<or>
       getAccessMethodName entry = IndexNames_HASHED))"

definition indexUnsupported :: "IndexCatalogEntry \<Rightarrow> BSONObj \<Rightarrow> bool" where
  "indexUnsupported entry currentObj =
     (\<not> (isPartial entry \<and> \<not> filterMatchesBSON entry currentObj) \<and>
      getAccessMethodName entry \<noteq> IndexNames_BTREE \<and>
      getAccessMethodName entry \<noteq> IndexNames_HASHED)"

definition probeMisses :: "IndexCatalogEntry \<Rightarrow> RecordId \<Rightarrow> KeyStringValue \<Rightarrow> bool" where
  "probeMisses entry currentRecordId key =
     (case seekForKeyString (sortedData entry) key of
        None \<Rightarrow> True
      | Some e \<Rightarrow> loc e \<noteq> currentRecordId)"

definition probedKeys :: "BSONObj \<Rightarrow> RecordId \<Rightarrow> IndexCatalogEntry \<Rightarrow> KeyStringValue list" where
  "probedKeys currentObj currentRecordId entry =
     (if indexChecked entry currentObj
      then map (\<lambda>k. (k, if unique entry then None else Some currentRecordId))
             (getKeys entry currentObj)
      else [])"

definition missingKeysOf :: "BSONObj \<Rightarrow> RecordId \<Rightarrow> IndexCatalogEntry \<Rightarrow> BSONObj list" where
  "missingKeysOf currentObj currentRecordId entry =
     map (missingKeyReport entry currentRecordId)
       (filter (probeMisses entry currentRecordId) (probedKeys currentObj currentRecordId entry))"

definition skipLine :: "IndexCatalogEntry \<Rightarrow> DebugLogLine" where
  "skipLine entry =
     \<lparr> logId = 8033900, debugLevel = 3, logMessage = ''Skip checking unsupported index.'',
       logIndexName = indexName entry \<rparr>"

section \<open>Notions used in the properties of the collection scan\<close>

text \<open>The key the scan remembers for an item: the \<^verbatim>\<open>_id\<close> value read from the
  index walk, with its field name restored.\<close>

definition idKey :: "BSONObj \<Rightarrow> BSONObj" where
  "idKey currentObjId = rehydrateKey [(''_id'', BNumber 1)] currentObjId"

text \<open>The hasher after a document has been folded in.\<close>

definition accepted :: "BSONLibrary \<Rightarrow> DbCheckHasher \<Rightarrow> byte list \<Rightarrow> BSONObj \<Rightarrow> DbCheckHasher" where
  "accepted bson h1 rcd rk =
     h1\<lparr> m_lastKeySeen := rk,
         m_countDocsSeen := m_countDocsSeen h1 + 1,
         m_bytesSeen := m_bytesSeen h1 + int (objsize bson rcd),
         m_state := m_state h1 @ rcd \<rparr>"

text \<open>
  The invariant of a batch: the counters are not negative; before the first document
  nothing has been counted; afterwards either exactly one document has been accepted or
  both ceilings hold.
\<close>

definition batchInv :: "DbCheckHasher \<Rightarrow> bool" where
  "batchInv h =
     (0 \<le> m_countDocsSeen h \<and> 0 \<le> m_countKeysSeen h \<and>
      (if m_countDocsSeen h = 0 then m_countKeysSeen h = 0 \<and> m_bytesSeen h = 0
       else m_countDocsSeen h = 1 \<or>
            (m_countDocsSeen h \<le> m_maxCount h \<and> m_bytesSeen h \<le> m_maxBytes h)))"

text \<open>The records of a scan that the record store holds, in the order of the scan.\<close>

definition foundRecord :: "Collection \<Rightarrow> ExecResult \<Rightarrow> byte list list" where
  "foundRecord collPtr x =
     (case x of
        Advanced objId rid \<Rightarrow> (case findRecord collPtr rid of None \<Rightarrow> [] | Some rcd \<Rightarrow> [rcd])
      | GetNextThrows e \<Rightarrow> [])"

definition foundRecords :: "Collection \<Rightarrow> ExecResult list \<Rightarrow> byte list list" where
  "foundRecords collPtr exec = concat (map (foundRecord collPtr) exec)"

text \<open>A scan whose cursor never throws and whose found documents all have an
  \<^verbatim>\<open>_id\<close> field.\<close>

definition wellKeyed :: "BSONLibrary \<Rightarrow> Collection \<Rightarrow> ExecResult list \<Rightarrow> bool" where
  "wellKeyed bson collPtr exec =
     ((\<forall>e. GetNextThrows e \<notin> set exec) \<and>
      (\<forall>objId rid rcd. Advanced objId rid \<in> set exec \<longrightarrow> findRecord collPtr rid = Some rcd \<longrightarrow>
          hasField (toBson bson rcd) ''_id''))"

text \<open>Some found document of the scan does not fit under the ceilings of the hasher.\<close>

definition ceilingReached ::
  "BSONLibrary \<Rightarrow> Collection \<Rightarrow> ExecResult list \<Rightarrow> DbCheckHasher \<Rightarrow> bool" where
  "ceilingReached bson collPtr exec h' =
     (\<exists>objId rid rcd. Advanced objId rid \<in> set exec \<and> findRecord collPtr rid = Some rcd \<and>
          \<not> canHashForCollectionCheck bson h' rcd)"

text \<open>The three ways a scan is meant to end: at the end of the range, at the deadline
  (the clock has passed it at some iteration), or at a ceiling.\<close>

definition legitimateExit ::
  "OperationContext \<Rightarrow> BSONLibrary \<Rightarrow> Collection \<Rightarrow> Date_t \<Rightarrow> ExecResult list \<Rightarrow>
   LoopExit \<times> DbCheckHasher \<times> HealthLog \<Rightarrow> bool" where
  "legitimateExit opCtx bson collPtr deadline exec res =
     (case res of
        (exit, h', log') \<Rightarrow>
          (if exit = ExitLoop IS_EOF then True
           else if exit = ExitLoop ADVANCED then (\<exists>j. now opCtx j > deadline)
           else exit = ReturnStatus Status_OK \<and> ceilingReached bson collPtr exec h'))"

text \<open>A scan that ended without an exception and without an error status.\<close>

definition completedOK :: "LoopExit \<Rightarrow> bool" where
  "completedOK exit =
     (case exit of
        ExitLoop lastState \<Rightarrow> True
      | ReturnStatus status \<Rightarrow> isOK status
      | Throws e \<Rightarrow> False)"

text \<open>
  A batch in the words of the specification, with the count taken as the hasher takes
  it. An item of a scan is a found document as the ceilings see it: its raw bytes, its
  size, and the number of index keys probed for it (the expected keys of the indexes
  checked for it in the missing-index-keys mode, none in the other modes). The items
  are accepted in the order of the scan. The first item is always accepted; a later one
  is accepted when the bytes seen plus its size do not exceed \<open>maxBytes\<close> and the count
  seen plus one does not exceed \<open>maxCount\<close>; the batch ends at the first item that is
  not accepted, and nothing behind that item belongs to it.
\<close>

definition keysProbed :: "IndexCatalogEntry list \<Rightarrow> BSONObj \<Rightarrow> int" where
  "keysProbed indexes currentObj =
     sum_list (map (\<lambda>entry. if indexChecked entry currentObj
                             then int (length (getKeys entry currentObj)) else 0) indexes)"

definition scanItem :: "BSONLibrary \<Rightarrow> DbCheckHasher \<Rightarrow> byte list \<Rightarrow> byte list \<times> int \<times> int" where
  "scanItem bson h rcd =
     (rcd, int (objsize bson rcd),
      if missingKeysMode (m_secondaryIndexCheckParameters h)
      then keysProbed (m_indexes h) (toBson bson rcd) else 0)"

fun acceptedItems ::
  "int \<Rightarrow> int \<Rightarrow> int \<Rightarrow> int \<Rightarrow> (byte list \<times> int \<times> int) list \<Rightarrow> byte list list" where
  "acceptedItems maxBytes maxCount bytes count [] = []"
| "acceptedItems maxBytes maxCount bytes count ((rcd, sz, nkeys) # items) =
     (if count = 0 \<or> (bytes + sz \<le> maxBytes \<and> count + 1 \<le> maxCount)
      then rcd # acceptedItems maxBytes maxCount (bytes + sz) (count + 1 + nkeys) items
      else [])"

text \<open>The batch a hasher takes from the found records of a scan.\<close>

definition batchOf :: "BSONLibrary \<Rightarrow> DbCheckHasher \<Rightarrow> byte list list \<Rightarrow> byte list list" where
  "batchOf bson h recs =
     acceptedItems (m_maxBytes h) (m_maxCount h) (bytesSeen h) (countSeen h)
       (map (scanItem bson h) recs)"

text \<open>
  Two hashers set up alike, as on two nodes that check the same range in the same mode:
  the same ceilings and check parameters, the same accumulator and counters, and
  secondary indexes of the same definitions. The index tables, the executors and the
  keys the hashers remember are each node's own.
\<close>

definition sameIndexDefinitions :: "IndexCatalogEntry list \<Rightarrow> IndexCatalogEntry list \<Rightarrow> bool" where
  "sameIndexDefinitions xs ys =
     (map (\<lambda>e. e\<lparr>sortedData := []\<rparr>) xs = map (\<lambda>e. e\<lparr>sortedData := []\<rparr>) ys)"

definition sameSetup :: "DbCheckHasher \<Rightarrow> DbCheckHasher \<Rightarrow> bool" where
  "sameSetup h1 h2 =
     (m_maxCount h1 = m_maxCount h2 \<and> m_maxBytes h1 = m_maxBytes h2 \<and>
      m_secondaryIndexCheckParameters h1 = m_secondaryIndexCheckParameters h2 \<and>
      sameIndexDefinitions (m_indexes h1) (m_indexes h2) \<and>
      m_state h1 = m_state h2 \<and> m_countDocsSeen h1 = m_countDocsSeen h2 \<and>
      m_countKeysSeen h1 = m_countKeysSeen h2 \<and> m_bytesSeen h1 = m_bytesSeen h2)"

section \<open>Notions used in the properties of the index scan\<close>

text \<open>The hasher after the key of an index entry has been folded in: \<open>hashKey\<close> for any
  key, \<open>foldKey\<close> with the count of keys identical to the end key of the batch.\<close>

definition hashKey :: "IndexCatalogEntry \<Rightarrow> DbCheckHasher \<Rightarrow> IndexKeyEntry \<Rightarrow> DbCheckHasher" where
  "hashKey iam h e =
     h\<lparr> m_bytesSeen := m_bytesSeen h + int (length (keyString e)),
        m_countKeysSeen := m_countKeysSeen h + 1,
        m_state := m_state h @ keyString e,
        m_lastKeySeen := toBsonSafe iam (keyString e) \<rparr>"

definition foldKey ::
  "IndexCatalogEntry \<Rightarrow> byte list \<Rightarrow> DbCheckHasher \<Rightarrow> IndexKeyEntry \<Rightarrow> DbCheckHasher" where
  "foldKey iam endKey h e =
     (if keyString e = endKey
      then (hashKey iam h e)\<lparr> m_nConsecutiveIdenticalIndexKeysSeenAtEnd :=
                                 m_nConsecutiveIdenticalIndexKeysSeenAtEnd h + 1 \<rparr>
      else hashKey iam h e)"

text \<open>An index table sorted by key, and the split of a list of entries at the first
  entry that has the end key.\<close>

definition sortedIndex :: "IndexKeyEntry list \<Rightarrow> bool" where
  "sortedIndex table =
     sorted_wrt (\<lambda>a b. key_string_compare (keyString a) (keyString b) \<le> 0) table"

definition beforeRun :: "byte list \<Rightarrow> IndexKeyEntry list \<Rightarrow> IndexKeyEntry list" where
  "beforeRun endKey es = takeWhile (\<lambda>e. keyString e \<noteq> endKey) es"

definition tailRun :: "byte list \<Rightarrow> IndexKeyEntry list \<Rightarrow> IndexKeyEntry list" where
  "tailRun endKey es = dropWhile (\<lambda>e. keyString e \<noteq> endKey) es"

text \<open>
  The keys, without row-identifier, that the cursor of a batch yields, and the keys of
  them that a batch consumes: every key before the first one equal to the end key, and
  of the keys from there on the first \<open>maxConsecutive\<close>.
\<close>

definition cursorKeys :: "IndexCatalogEntry \<Rightarrow> BSONObj \<Rightarrow> BSONObj \<Rightarrow> byte list list" where
  "cursorKeys iam batchStart batchEnd =
     map keyString
       (cursorEntries (sortedData iam) (resetToKey iam batchStart) (resetToKey iam batchEnd))"

definition consumedKeys :: "int \<Rightarrow> byte list \<Rightarrow> byte list list \<Rightarrow> byte list list" where
  "consumedKeys maxConsecutive endKey keys =
     takeWhile (\<lambda>k. k \<noteq> endKey) keys @
     take (nat maxConsecutive) (dropWhile (\<lambda>k. k \<noteq> endKey) keys)"

section \<open>Notions used in the properties of the batch verifier\<close>


section \<open>Example data\<close>

text \<open>
  A small collection used to run the definitions. A stored record is a list of bytes:
  the first byte is the value of \<^verbatim>\<open>_id\<close> (a record starting with 0 has no \<^verbatim>\<open>_id\<close>
  field), the others are the elements of the array field \<^verbatim>\<open>a\<close>. A record holding
  the byte 255 is not well-formed BSON; one holding 254 is non-conformant for the
  stricter validation modes. The key string of a number is its byte.
\<close>

definition ex_ns :: NamespaceString where
  "ex_ns = \<lparr> ns = ''test.coll'', isChangeStreamPreImagesCollection = False,
             isConfigImagesCollection = False, isChangeCollection = False \<rparr>"

definition ex_validateBSON :: "byte list \<Rightarrow> BSONValidateModeEnum \<Rightarrow> Status" where
  "ex_validateBSON bytes mode =
     (if 255 \<in> set bytes then Status InvalidBSON ''not well-formed''
      else if 254 \<in> set bytes \<and> mode \<noteq> kDefault
      then Status NonConformantBSON ''non-conformant''
      else Status_OK)"

definition ex_toBson :: "byte list \<Rightarrow> BSONObj" where
  "ex_toBson bytes =
     (case bytes of
        [] \<Rightarrow> []
      | b # bs \<Rightarrow>
          (if b = 0 then [] else [(''_id'', BNumber (uint b))]) @
          [(''a'', BArray (map (\<lambda>x. BNumber (uint x)) bs))])"

definition ex_bson :: BSONLibrary where
  "ex_bson = \<lparr> validateBSON = ex_validateBSON, toBson = ex_toBson, objsize = length \<rparr>"

definition ex_getKeys :: "BSONObj \<Rightarrow> byte list list" where
  "ex_getKeys obj =
     (case map_of obj ''a'' of
        Some (BNumber v) \<Rightarrow> [[word_of_int v]]
      | Some (BArray vs) \<Rightarrow> concat (map (\<lambda>x. case x of BNumber v \<Rightarrow> [[word_of_int v]] | _ \<Rightarrow> []) vs)
      | _ \<Rightarrow> [])"

definition ex_resetToKey :: "BSONObj \<Rightarrow> byte list" where
  "ex_resetToKey obj = (case obj of [(n, BNumber v)] \<Rightarrow> [word_of_int v] | _ \<Rightarrow> [])"

definition ex_toBsonSafe :: "byte list \<Rightarrow> BSONObj" where
  "ex_toBsonSafe k = map (\<lambda>b. ([], BNumber (uint b))) k"

definition ex_index :: "IndexKeyEntry list \<Rightarrow> IndexCatalogEntry" where
  "ex_index table =
     \<lparr> indexName = ''a_1'', isIdIndex = False, isPartial = False,
       filterMatchesBSON = (\<lambda>obj. True), getAccessMethodName = IndexNames_BTREE,
       unique = False, keyPattern = [(''a'', BNumber 1)],
       infoObj = [(''name'', BString ''a_1'')], getKeys = ex_getKeys,
       resetToKey = ex_resetToKey, toBsonSafe = ex_toBsonSafe, sortedData = table \<rparr>"

definition ex_idIndex :: IndexCatalogEntry where
  "ex_idIndex =
     \<lparr> indexName = ''_id_'', isIdIndex = True, isPartial = False,
       filterMatchesBSON = (\<lambda>obj. True), getAccessMethodName = IndexNames_BTREE,
       unique = True, keyPattern = [(''_id'', BNumber 1)],
       infoObj = [(''name'', BString ''_id_'')], getKeys = (\<lambda>obj. []),
       resetToKey = ex_resetToKey, toBsonSafe = ex_toBsonSafe, sortedData = [] \<rparr>"

text \<open>A collection given by its secondary indexes, its record store and the results
  of its \<^verbatim>\<open>_id\<close> scan.\<close>

definition ex_coll ::
  "IndexCatalogEntry list \<Rightarrow> (RecordId \<Rightarrow> byte list option) \<Rightarrow> ExecResult list \<Rightarrow> Collection" where
  "ex_coll secondary store scan =
     \<lparr> coll_ns = ex_ns, coll_uuid = 7, isClustered = False, capped = False,
       indexCatalog = ex_idIndex # secondary, findRecord = store,
       planExecutor = (\<lambda>start end. scan), keyForDoc = (\<lambda>obj. Status_OK) \<rparr>"

text \<open>An operation that is never interrupted, with a clock that stands at 0.\<close>

definition ex_opCtx :: OperationContext where
  "ex_opCtx = \<lparr> checkForInterruptNoAssert = (\<lambda>i. Status_OK), now = (\<lambda>i. 0) \<rparr>"

definition ex_missingKeysParams :: SecondaryIndexCheckParameters where
  "ex_missingKeysParams =
     \<lparr> getValidateMode = dataConsistencyAndMissingIndexKeysCheck, getSecondaryIndex = [],
       getBsonValidateMode = kDefault \<rparr>"

definition ex_extraKeysParams :: SecondaryIndexCheckParameters where
  "ex_extraKeysParams =
     \<lparr> getValidateMode = extraIndexKeysCheck, getSecondaryIndex = ''a_1'',
       getBsonValidateMode = kDefault \<rparr>"

text \<open>The document \<^verbatim>\<open>{_id: 1, a: [1, 2]}\<close> at row 5, and an index on \<^verbatim>\<open>a\<close> from which
  the entry of the key 1 has been removed.\<close>

definition ex_multikeyDoc :: BSONObj where
  "ex_multikeyDoc = ex_toBson [1, 1, 2]"

definition ex_tornIndex :: IndexCatalogEntry where
  "ex_tornIndex = ex_index [\<lparr> keyString = [2], loc = 5 \<rparr>]"

definition ex_tornHasher :: DbCheckHasher where
  "ex_tornHasher =
     newHasher [(''_id'', BMaxKey)] (Some ex_missingKeysParams) None 100 1000 (Some [])
       [ex_tornIndex]"

text \<open>Scans over a small record store: row 9 has no record, the record of row 3 is
  not well-formed, the record of row 4 has no \<^verbatim>\<open>_id\<close> field.\<close>

definition ex_key :: "int \<Rightarrow> BSONObj" where
  "ex_key n = [([], BNumber n)]"

definition ex_store :: "RecordId \<Rightarrow> byte list option" where
  "ex_store = map_of [(1, [1, 10]), (2, [2, 20, 21]), (3, [3, 255]), (4, [0, 9]), (6, [6, 30, 31])]"

definition ex_hasher ::
  "SecondaryIndexCheckParameters option \<Rightarrow> int \<Rightarrow> int \<Rightarrow> ExecResult list \<Rightarrow>
   IndexCatalogEntry list \<Rightarrow> DbCheckHasher" where
  "ex_hasher parameters maxCount maxBytes scan indexes =
     newHasher [(''_id'', BMaxKey)] parameters None maxCount maxBytes (Some scan) indexes"

definition ex_gapScan :: "ExecResult list" where
  "ex_gapScan = [Advanced (ex_key 9) 9, Advanced (ex_key 1) 1]"

definition ex_malformedScan :: "ExecResult list" where
  "ex_malformedScan = [Advanced (ex_key 3) 3, Advanced (ex_key 1) 1]"

definition ex_noIdScan :: "ExecResult list" where
  "ex_noIdScan = [Advanced (ex_key 4) 4, Advanced (ex_key 1) 1]"

definition ex_anomalyScan :: "ExecResult list" where
  "ex_anomalyScan = [Advanced (ex_key 9) 9, Advanced (ex_key 3) 3, Advanced (ex_key 6) 6]"

definition ex_fullIndex :: IndexCatalogEntry where
  "ex_fullIndex =
     ex_index [\<lparr> keyString = [10], loc = 1 \<rparr>, \<lparr> keyString = [20], loc = 2 \<rparr>,
               \<lparr> keyString = [21], loc = 2 \<rparr>]"

definition ex_twoDocScan :: "ExecResult list" where
  "ex_twoDocScan = [Advanced (ex_key 2) 2, Advanced (ex_key 1) 1]"

text \<open>An index with the keys 1, 3, 3, 3, 4, and a hasher set up for it.\<close>

definition ex_dupIndex :: IndexCatalogEntry where
  "ex_dupIndex =
     ex_index [\<lparr> keyString = [1], loc = 10 \<rparr>, \<lparr> keyString = [3], loc = 11 \<rparr>,
               \<lparr> keyString = [3], loc = 12 \<rparr>, \<lparr> keyString = [3], loc = 13 \<rparr>,
               \<lparr> keyString = [4], loc = 14 \<rparr>]"

definition ex_indexHasher :: "BSONObj \<Rightarrow> int \<Rightarrow> int \<Rightarrow> DbCheckHasher" where
  "ex_indexHasher end maxCount maxBytes =
     newHasher end (Some ex_extraKeysParams) (Some ''a_1'') maxCount maxBytes None []"

text \<open>An operation that is never interrupted, with a clock that stands at 200.\<close>

definition ex_slowCtx :: OperationContext where
  "ex_slowCtx = \<lparr> checkForInterruptNoAssert = (\<lambda>i. Status_OK), now = (\<lambda>i. 200) \<rparr>"





text \<open>A scan of three documents of 3, 3 and 2 bytes.\<close>

definition ex_threeDocScan :: "ExecResult list" where
  "ex_threeDocScan = [Advanced (ex_key 2) 2, Advanced (ex_key 6) 6, Advanced (ex_key 1) 1]"

text \<open>A second node: the documents of rows 2 and 1 of the first store, held at rows of
  its own, and an index with the keys 1, 3, 3, 3, 4 at rows of its own.\<close>

definition ex_otherStore :: "RecordId \<Rightarrow> byte list option" where
  "ex_otherStore = map_of [(21, [2, 20, 21]), (22, [1, 10])]"

definition ex_otherScan :: "ExecResult list" where
  "ex_otherScan = [Advanced (ex_key 2) 21, Advanced (ex_key 1) 22]"

definition ex_otherDupIndex :: IndexCatalogEntry where
  "ex_otherDupIndex =
     ex_index [\<lparr> keyString = [1], loc = 20 \<rparr>, \<lparr> keyString = [3], loc = 21 \<rparr>,
               \<lparr> keyString = [3], loc = 22 \<rparr>, \<lparr> keyString = [3], loc = 23 \<rparr>,
               \<lparr> keyString = [4], loc = 24 \<rparr>]"

section \<open>Properties\<close>

subsection \<open>Key strings and the validator\<close>

lemma key_string_compare_eq: "key_string_compare a b = 0 \<longleftrightarrow> a = b"
  by (induction a b rule: key_string_compare.induct) auto

lemma probeKeys_closed:
  "probeKeys entry rid keys h =
     h\<lparr> m_countKeysSeen := m_countKeysSeen h + int (length keys),
        m_missingIndexKeys := m_missingIndexKeys h @
           map (missingKeyReport entry rid) (filter (probeMisses entry rid) keys) \<rparr>"
  by (induction keys arbitrary: h) (auto simp: probeMisses_def Let_def split: option.splits)

lemma validateIndexes_closed:
  "validateIndexes obj rid entries (h, dbg) =
     (h\<lparr> m_countKeysSeen :=
           m_countKeysSeen h + int (length (concat (map (probedKeys obj rid) entries))),
         m_missingIndexKeys :=
           m_missingIndexKeys h @ concat (map (missingKeysOf obj rid) entries) \<rparr>,
      dbg @ map skipLine (filter (\<lambda>e. indexUnsupported e obj) entries))"
proof (induction entries arbitrary: h dbg)
  case Nil
  then show ?case by simp
next
  case (Cons entry entries)
  show ?case
    by (simp add: Cons.IH probeKeys_closed probedKeys_def missingKeysOf_def indexChecked_def
        indexUnsupported_def skipLine_def expectedKeyStrings_def)
qed

lemma validateMissingKeys_closed:
  "validateMissingKeys obj rid h =
     (let report = m_missingIndexKeys h @ concat (map (missingKeysOf obj rid) (m_indexes h));
          h' = h\<lparr> m_countKeysSeen :=
                     m_countKeysSeen h +
                     int (length (concat (map (probedKeys obj rid) (m_indexes h)))),
                   m_missingIndexKeys := report \<rparr>;
          dbg = map skipLine (filter (\<lambda>e. indexUnsupported e obj) (m_indexes h))
      in (if report = [] then Status_OK
          else Status NoSuchKey ''Document has missing index keys'', h', dbg))"
  by (simp add: validateMissingKeys_def validateIndexes_closed Let_def)

text \<open>
  C9. The validator probes every expected key of every checked index and reports the
  keys whose probe misses. A probe is a seek to the closest entry at or after the key,
  judged by the row-identifier of the entry found. For the document
  \<^verbatim>\<open>{_id: 1, a: [1, 2]}\<close> at row 5 and an index that has lost the entry of the key 1,
  the probe of the key 1 lands on the entry of the key 2 of the same row: both expected
  keys are probed, nothing is reported and the status is OK, although the index holds
  no entry for the key 1.
\<close>

theorem validateMissingKeys_misses_torn_multikey:
  "validateMissingKeys ex_multikeyDoc 5 ex_tornHasher =
     (Status_OK, ex_tornHasher\<lparr>m_countKeysSeen := 2\<rparr>, []) \<and>
   expectedKeyStrings ex_tornIndex ex_multikeyDoc 5 = [([1], Some 5), ([2], Some 5)] \<and>
   [1] \<notin> set (map keyString (sortedData ex_tornIndex))"
  by (simp add: validateMissingKeys_closed ex_tornHasher_def newHasher_def ex_tornIndex_def
      ex_index_def ex_multikeyDoc_def ex_toBson_def ex_getKeys_def missingKeysOf_def
      probedKeys_def indexChecked_def indexUnsupported_def probeMisses_def seekForKeyString_def
      entryBefore_def expectedKeyStrings_def IndexNames_BTREE_def)

subsection \<open>The collection scan\<close>

lemma md5_append_all: "md5_append st buf (length buf) = st @ buf"
  by (simp add: md5_append_def)

lemma checkMissingKeys_closed:
  "checkMissingKeys collPtr h obj rid rk log =
     (if missingKeysMode (m_secondaryIndexCheckParameters h) then
        (let report = concat (map (missingKeysOf obj rid) (m_indexes h));
             h1 = h\<lparr> m_countKeysSeen :=
                        m_countKeysSeen h +
                        int (length (concat (map (probedKeys obj rid) (m_indexes h)))),
                      m_missingIndexKeys := report \<rparr>
         in (h1, if report = [] then log
                 else log @ [missingIndexKeysEntry h1 collPtr
                               (Status NoSuchKey ''Document has missing index keys'') rid rk]))
      else (h, log))"
  by (simp add: checkMissingKeys_def validateMissingKeys_closed Let_def isOK_def Status_OK_def)

lemma checkMissingKeys_fields:
  assumes "checkMissingKeys collPtr h obj rid rk log = (h1, log1)"
  shows "m_state h1 = m_state h" "m_countDocsSeen h1 = m_countDocsSeen h"
    "m_bytesSeen h1 = m_bytesSeen h" "m_maxCount h1 = m_maxCount h"
    "m_maxBytes h1 = m_maxBytes h" "m_maxKey h1 = m_maxKey h"
    "m_secondaryIndexCheckParameters h1 = m_secondaryIndexCheckParameters h"
    "m_indexes h1 = m_indexes h" "m_countKeysSeen h \<le> m_countKeysSeen h1"
    "\<exists>new. log1 = log @ new"
  using assms by (auto simp: checkMissingKeys_closed Let_def split: if_splits)

text \<open>The step of the loop at a found record, as one equation.\<close>

lemma collectionLoop_found:
  assumes "isOK (checkForInterruptNoAssert opCtx i)"
    and "findRecord collPtr rid = Some record"
  shows "collectionLoop opCtx bson collPtr deadline i (Advanced objId rid # exec) h log =
     (let log1 = validateRecord bson collPtr h record rid (idKey objId) log in
      if \<not> hasField (toBson bson record) ''_id''
      then (ReturnStatus (Status NoSuchKey (''Document with record ID '' @ RecordId_toString rid @
                           '' missing _id'')), h, log1)
      else if \<not> canHashForCollectionCheck bson h record
      then (ReturnStatus Status_OK, h, log1)
      else
        let hl = checkMissingKeys collPtr h (toBson bson record) rid (idKey objId) log1;
            h2 = (fst hl)\<lparr> m_lastKeySeen := idKey objId,
                     m_countDocsSeen := m_countDocsSeen (fst hl) + 1,
                     m_bytesSeen := m_bytesSeen (fst hl) + int (objsize bson record),
                     m_state := m_state (fst hl) @ record \<rparr>
        in if now opCtx i > deadline
           then (ExitLoop ADVANCED, h2, snd hl)
           else collectionLoop opCtx bson collPtr deadline (Suc i) exec h2 (snd hl))"
  using assms by (simp add: Let_def idKey_def md5_append_all split: prod.splits)

lemma collectionLoop_missing:
  assumes "isOK (checkForInterruptNoAssert opCtx i)"
    and "findRecord collPtr rid = None"
  shows "collectionLoop opCtx bson collPtr deadline i (Advanced objId rid # exec) h log =
     collectionLoop opCtx bson collPtr deadline (Suc i) exec h
       (log @ [missingRecordEntry h collPtr rid (idKey objId)])"
  using assms by (simp add: Let_def idKey_def)

lemma collectionLoop_interrupted:
  assumes "\<not> isOK (checkForInterruptNoAssert opCtx i)"
  shows "collectionLoop opCtx bson collPtr deadline i (Advanced objId rid # exec) h log =
     (Throws (checkForInterruptNoAssert opCtx i), h, log)"
  using assms by simp

lemma collectionLoop_cases [case_names eof getNextThrows interrupted missing noId ceiling
    deadline continue]:
  assumes eof: "\<And>i h log. P i [] h log (ExitLoop IS_EOF, h, log)"
    and throws: "\<And>i e exec h log. P i (GetNextThrows e # exec) h log (Throws e, h, log)"
    and intr: "\<And>i objId rid exec h log.
        \<not> isOK (checkForInterruptNoAssert opCtx i) \<Longrightarrow>
        P i (Advanced objId rid # exec) h log (Throws (checkForInterruptNoAssert opCtx i), h, log)"
    and missing: "\<And>i objId rid exec h log.
        isOK (checkForInterruptNoAssert opCtx i) \<Longrightarrow> findRecord collPtr rid = None \<Longrightarrow>
        P (Suc i) exec h (log @ [missingRecordEntry h collPtr rid (idKey objId)])
          (collectionLoop opCtx bson collPtr deadline (Suc i) exec h
             (log @ [missingRecordEntry h collPtr rid (idKey objId)])) \<Longrightarrow>
        P i (Advanced objId rid # exec) h log
          (collectionLoop opCtx bson collPtr deadline (Suc i) exec h
             (log @ [missingRecordEntry h collPtr rid (idKey objId)]))"
    and noId: "\<And>i objId rid exec h log rcd.
        isOK (checkForInterruptNoAssert opCtx i) \<Longrightarrow> findRecord collPtr rid = Some rcd \<Longrightarrow>
        \<not> hasField (toBson bson rcd) ''_id'' \<Longrightarrow>
        P i (Advanced objId rid # exec) h log
          (ReturnStatus (Status NoSuchKey (''Document with record ID '' @ RecordId_toString rid @
             '' missing _id'')), h, validateRecord bson collPtr h rcd rid (idKey objId) log)"
    and ceiling: "\<And>i objId rid exec h log rcd.
        isOK (checkForInterruptNoAssert opCtx i) \<Longrightarrow> findRecord collPtr rid = Some rcd \<Longrightarrow>
        hasField (toBson bson rcd) ''_id'' \<Longrightarrow> \<not> canHashForCollectionCheck bson h rcd \<Longrightarrow>
        P i (Advanced objId rid # exec) h log
          (ReturnStatus Status_OK, h, validateRecord bson collPtr h rcd rid (idKey objId) log)"
    and deadline: "\<And>i objId rid exec h log rcd h1 log2.
        isOK (checkForInterruptNoAssert opCtx i) \<Longrightarrow> findRecord collPtr rid = Some rcd \<Longrightarrow>
        hasField (toBson bson rcd) ''_id'' \<Longrightarrow> canHashForCollectionCheck bson h rcd \<Longrightarrow>
        checkMissingKeys collPtr h (toBson bson rcd) rid (idKey objId)
          (validateRecord bson collPtr h rcd rid (idKey objId) log) = (h1, log2) \<Longrightarrow>
        now opCtx i > deadline \<Longrightarrow>
        P i (Advanced objId rid # exec) h log
          (ExitLoop ADVANCED, accepted bson h1 rcd (idKey objId), log2)"
    and continue: "\<And>i objId rid exec h log rcd h1 log2.
        isOK (checkForInterruptNoAssert opCtx i) \<Longrightarrow> findRecord collPtr rid = Some rcd \<Longrightarrow>
        hasField (toBson bson rcd) ''_id'' \<Longrightarrow> canHashForCollectionCheck bson h rcd \<Longrightarrow>
        checkMissingKeys collPtr h (toBson bson rcd) rid (idKey objId)
          (validateRecord bson collPtr h rcd rid (idKey objId) log) = (h1, log2) \<Longrightarrow>
        \<not> now opCtx i > deadline \<Longrightarrow>
        P (Suc i) exec (accepted bson h1 rcd (idKey objId)) log2
          (collectionLoop opCtx bson collPtr deadline (Suc i) exec
             (accepted bson h1 rcd (idKey objId)) log2) \<Longrightarrow>
        P i (Advanced objId rid # exec) h log
          (collectionLoop opCtx bson collPtr deadline (Suc i) exec
             (accepted bson h1 rcd (idKey objId)) log2)"
  shows "P i exec h log (collectionLoop opCtx bson collPtr deadline i exec h log)"
proof (induction exec arbitrary: i h log)
  case Nil
  show ?case by (simp add: eof)
next
  case (Cons x exec)
  show ?case
  proof (cases x)
    case (GetNextThrows e)
    then show ?thesis by (simp add: throws)
  next
    case (Advanced objId rid)
    show ?thesis
    proof (cases "isOK (checkForInterruptNoAssert opCtx i)")
      case False
      then show ?thesis unfolding Advanced collectionLoop_interrupted[OF False] by (rule intr)
    next
      case ok: True
      show ?thesis
      proof (cases "findRecord collPtr rid")
        case None
        show ?thesis unfolding Advanced collectionLoop_missing[OF ok None]
          by (rule missing[OF ok None Cons.IH])
      next
        case (Some rcd)
        obtain h1 log2 where hl:
          "checkMissingKeys collPtr h (toBson bson rcd) rid (idKey objId)
             (validateRecord bson collPtr h rcd rid (idKey objId) log) = (h1, log2)"
          by (cases "checkMissingKeys collPtr h (toBson bson rcd) rid (idKey objId)
             (validateRecord bson collPtr h rcd rid (idKey objId) log)") auto
        have step: "collectionLoop opCtx bson collPtr deadline i (Advanced objId rid # exec) h log =
          (if \<not> hasField (toBson bson rcd) ''_id''
           then (ReturnStatus (Status NoSuchKey (''Document with record ID '' @
                   RecordId_toString rid @ '' missing _id'')), h,
                 validateRecord bson collPtr h rcd rid (idKey objId) log)
           else if \<not> canHashForCollectionCheck bson h rcd
           then (ReturnStatus Status_OK, h,
                 validateRecord bson collPtr h rcd rid (idKey objId) log)
           else if now opCtx i > deadline
           then (ExitLoop ADVANCED, accepted bson h1 rcd (idKey objId), log2)
           else collectionLoop opCtx bson collPtr deadline (Suc i) exec
                  (accepted bson h1 rcd (idKey objId)) log2)"
          unfolding collectionLoop_found[OF ok Some] using hl by (auto simp: Let_def accepted_def)
        show ?thesis
        proof (cases "hasField (toBson bson rcd) ''_id''")
          case False
          show ?thesis unfolding Advanced step using noId[OF ok Some False] False by simp
        next
          case hasId: True
          show ?thesis
          proof (cases "canHashForCollectionCheck bson h rcd")
            case False
            show ?thesis unfolding Advanced step using ceiling[OF ok Some hasId False] hasId False
              by simp
          next
            case can: True
            show ?thesis
            proof (cases "now opCtx i > deadline")
              case True
              show ?thesis unfolding Advanced step
                using deadline[OF ok Some hasId can hl True] hasId can True by simp
            next
              case False
              show ?thesis unfolding Advanced step
                using continue[OF ok Some hasId can hl False Cons.IH] hasId can False by simp
            qed
          qed
        qed
      qed
    qed
  qed
qed

lemma accept_inv:
  assumes inv: "batchInv h" and can: "canHashForCollectionCheck bson h rcd"
    and hl: "checkMissingKeys collPtr h obj rid rk log1 = (h1, log2)"
  shows "batchInv (accepted bson h1 rcd rk)"
  using inv can checkMissingKeys_fields[OF hl]
  by (auto simp: batchInv_def accepted_def canHashForCollectionCheck_def countSeen_def
      docsSeen_def keysSeen_def split: if_splits)

lemma accepted_fields:
  assumes hl: "checkMissingKeys collPtr h obj rid rk0 log1 = (h1, log2)"
  shows "m_maxCount (accepted bson h1 rcd rk) = m_maxCount h"
    "m_maxBytes (accepted bson h1 rcd rk) = m_maxBytes h"
    "m_countDocsSeen (accepted bson h1 rcd rk) = m_countDocsSeen h + 1"
    "m_bytesSeen (accepted bson h1 rcd rk) = m_bytesSeen h + int (objsize bson rcd)"
    "m_state (accepted bson h1 rcd rk) = m_state h @ rcd"
    "m_lastKeySeen (accepted bson h1 rcd rk) = rk"
    "m_maxKey (accepted bson h1 rcd rk) = m_maxKey h"
  using checkMissingKeys_fields[OF hl] by (simp_all add: accepted_def)

lemma collectionLoop_inv:
  "batchInv h \<longrightarrow>
     (case collectionLoop opCtx bson collPtr deadline i exec h log of
        (exit, h', log') \<Rightarrow>
          batchInv h' \<and> m_maxCount h' = m_maxCount h \<and> m_maxBytes h' = m_maxBytes h \<and>
          m_countDocsSeen h \<le> m_countDocsSeen h')"
proof (induction i exec h log rule: collectionLoop_cases[where opCtx = opCtx and bson = bson
      and collPtr = collPtr and deadline = deadline])
  case (deadline i objId rid exec h log rcd h1 log2)
  then show ?case using accept_inv accepted_fields by (auto simp: accepted_fields)
next
  case (continue i objId rid exec h log rcd h1 log2)
  then show ?case
    using accept_inv[OF _ continue(4,5)] accepted_fields[OF continue(5)]
    by (auto split: prod.splits)
qed (auto split: prod.splits)

lemma wellKeyed_Cons: "wellKeyed bson collPtr (x # exec) \<Longrightarrow> wellKeyed bson collPtr exec"
  by (simp add: wellKeyed_def)

lemma wellKeyed_head:
  "wellKeyed bson collPtr (Advanced objId rid # exec) \<Longrightarrow> findRecord collPtr rid = Some rcd \<Longrightarrow>
   hasField (toBson bson rcd) ''_id''"
  by (simp add: wellKeyed_def)

lemma wellKeyed_throws: "\<not> wellKeyed bson collPtr (GetNextThrows e # exec)"
  by (auto simp: wellKeyed_def)

lemma ceilingReached_Cons:
  "ceilingReached bson collPtr exec h' \<Longrightarrow> ceilingReached bson collPtr (x # exec) h'"
  unfolding ceilingReached_def by (meson list.set_intros(2))

lemma ceilingReached_head:
  "findRecord collPtr rid = Some rcd \<Longrightarrow> \<not> canHashForCollectionCheck bson h' rcd \<Longrightarrow>
   ceilingReached bson collPtr (Advanced objId rid # exec) h'"
  unfolding ceilingReached_def by (meson list.set_intros(1))

lemma legitimateExit_Cons:
  "legitimateExit opCtx bson collPtr deadline exec res \<Longrightarrow>
   legitimateExit opCtx bson collPtr deadline (x # exec) res"
  by (auto simp: legitimateExit_def ceilingReached_Cons split: prod.splits if_splits)

lemma collectionLoop_exits:
  "(\<forall>j. isOK (checkForInterruptNoAssert opCtx j)) \<longrightarrow> wellKeyed bson collPtr exec \<longrightarrow>
     legitimateExit opCtx bson collPtr deadline exec
       (collectionLoop opCtx bson collPtr deadline i exec h log)"
proof (induction i exec h log rule: collectionLoop_cases[where opCtx = opCtx and bson = bson
      and collPtr = collPtr and deadline = deadline])
  case (eof i h log)
  show ?case by (simp add: legitimateExit_def)
next
  case (getNextThrows i e exec h log)
  show ?case by (simp add: wellKeyed_throws)
next
  case (interrupted i objId rid exec h log)
  then show ?case by blast
next
  case (missing i objId rid exec h log)
  then show ?case using wellKeyed_Cons legitimateExit_Cons by blast
next
  case (noId i objId rid exec h log rcd)
  then show ?case using wellKeyed_head by blast
next
  case (ceiling i objId rid exec h log rcd)
  then show ?case by (simp add: legitimateExit_def ceilingReached_head)
next
  case (deadline i objId rid exec h log rcd h1 log2)
  then show ?case by (auto simp: legitimateExit_def)
next
  case (continue i objId rid exec h log rcd h1 log2)
  then show ?case using wellKeyed_Cons legitimateExit_Cons by blast
qed

lemma collectionLoop_nonempty:
  "batchInv h \<longrightarrow>
     (case collectionLoop opCtx bson collPtr deadline i exec h log of
        (exit, h', log') \<Rightarrow>
          completedOK exit \<longrightarrow> foundRecords collPtr exec \<noteq> [] \<longrightarrow> 1 \<le> m_countDocsSeen h')"
proof (induction i exec h log rule: collectionLoop_cases[where opCtx = opCtx and bson = bson
      and collPtr = collPtr and deadline = deadline])
  case (ceiling i objId rid exec h log rcd)
  then show ?case
    by (auto simp: batchInv_def canHashForCollectionCheck_def countSeen_def docsSeen_def
        keysSeen_def split: if_splits)
next
  case (deadline i objId rid exec h log rcd h1 log2)
  then show ?case by (auto simp: accepted_fields batchInv_def)
next
  case (continue i objId rid exec h log rcd h1 log2)
  have "batchInv (accepted bson h1 rcd (idKey objId)) \<longrightarrow>
        (case collectionLoop opCtx bson collPtr deadline (Suc i) exec
                (accepted bson h1 rcd (idKey objId)) log2 of
           (exit, h', log') \<Rightarrow>
             m_countDocsSeen (accepted bson h1 rcd (idKey objId)) \<le> m_countDocsSeen h')"
    using collectionLoop_inv[of "accepted bson h1 rcd (idKey objId)" opCtx bson collPtr
        deadline "Suc i" exec log2] by (auto split: prod.splits)
  with continue(1-5) show ?case
    using accept_inv[OF _ continue(4,5)] accepted_fields(3)[OF continue(5)]
    by (auto simp: batchInv_def split: prod.splits)
qed (auto simp: completedOK_def isOK_def foundRecords_def foundRecord_def split: prod.splits)

subsection \<open>Claims about the collection scan\<close>

lemmas ex_defs = ex_key_def ex_store_def ex_hasher_def ex_gapScan_def ex_malformedScan_def
  ex_noIdScan_def ex_anomalyScan_def ex_fullIndex_def ex_twoDocScan_def ex_coll_def ex_ns_def
  ex_bson_def ex_validateBSON_def ex_toBson_def ex_getKeys_def ex_resetToKey_def
  ex_toBsonSafe_def ex_index_def ex_idIndex_def ex_opCtx_def ex_missingKeysParams_def
  ex_extraKeysParams_def newHasher_def md5_init_state_def

lemmas eval_defs = hashForCollectionCheck_def validateRecord_def checkMissingKeys_closed
  canHashForCollectionCheck_def countSeen_def docsSeen_def keysSeen_def bytesSeen_def
  lastKeySeen_def hasField_def isOK_def Status_OK_def missingKeysMode_def md5_append_def
  malformedEntry_def missingRecordEntry_def missingIndexKeysEntry_def
  dbCheckErrorHealthLogEntry_def dbCheckWarningHealthLogEntry_def dbCheckHealthLogEntry_def
  missingKeysOf_def probedKeys_def indexChecked_def probeMisses_def seekForKeyString_def
  entryBefore_def IndexNames_BTREE_def IndexNames_HASHED_def idKey_def accepted_def
  int64_max_def Date_t_max_def Let_def

lemma severity_missingRecordEntry [simp]:
  "severity (missingRecordEntry h collPtr rid rk) = Error"
  by (simp add: missingRecordEntry_def dbCheckErrorHealthLogEntry_def dbCheckHealthLogEntry_def)

lemma severity_malformedEntry [simp]:
  "severity (malformedEntry h collPtr status rid rk) =
     (if code status = NonConformantBSON then Warning else Error)"
  by (simp add: malformedEntry_def dbCheckErrorHealthLogEntry_def
      dbCheckWarningHealthLogEntry_def dbCheckHealthLogEntry_def)

lemma severity_missingIndexKeysEntry [simp]:
  "severity (missingIndexKeysEntry h collPtr status rid rk) = Error"
  by (simp add: missingIndexKeysEntry_def dbCheckErrorHealthLogEntry_def
      dbCheckHealthLogEntry_def)

text \<open>
  C6. An item of the \<^verbatim>\<open>_id\<close> scan whose record the record store does not hold,
  reached with the interruption check passed, adds exactly one health log entry, of
  severity \<open>Error\<close>, and the scan goes on with the next item: the hasher (digest,
  counters, last key) is the one it was before the item, and nothing is raised.
\<close>

theorem missing_record_logged_and_skipped:
  assumes "isOK (checkForInterruptNoAssert opCtx i)" and "findRecord collPtr rid = None"
  shows "collectionLoop opCtx bson collPtr deadline i (Advanced objId rid # exec) h log =
           collectionLoop opCtx bson collPtr deadline (Suc i) exec h
             (log @ [missingRecordEntry h collPtr rid (idKey objId)]) \<and>
         severity (missingRecordEntry h collPtr rid (idKey objId)) = Error"
  using collectionLoop_missing[OF assms] by simp

theorem missing_record_logged_and_skipped_witness:
  "isOK (checkForInterruptNoAssert ex_opCtx 0) \<and>
   findRecord (ex_coll [] ex_store ex_gapScan) 9 = None \<and>
   collectionLoop ex_opCtx ex_bson (ex_coll [] ex_store ex_gapScan) Date_t_max 0 ex_gapScan
     (ex_hasher None int64_max int64_max ex_gapScan []) [] =
   (ExitLoop IS_EOF,
    (ex_hasher None int64_max int64_max ex_gapScan [])
      \<lparr> m_lastKeySeen := [(''_id'', BNumber 1)], m_countDocsSeen := 1, m_bytesSeen := 2,
        m_state := [1, 10] \<rparr>,
    [missingRecordEntry (ex_hasher None int64_max int64_max ex_gapScan [])
       (ex_coll [] ex_store ex_gapScan) 9 (idKey (ex_key 9))])"
proof -
  have a: "isOK (checkForInterruptNoAssert ex_opCtx 0)"
    by (simp add: ex_opCtx_def isOK_def Status_OK_def)
  have b: "findRecord (ex_coll [] ex_store ex_gapScan) 9 = None"
    by (simp add: ex_coll_def ex_store_def)
  show ?thesis
    using missing_record_logged_and_skipped[OF a b, of ex_bson Date_t_max "ex_key 9"
        "[Advanced (ex_key 1) 1]" "ex_hasher None int64_max int64_max ex_gapScan []" "[]"] a b
    by (simp add: ex_defs eval_defs)
qed

text \<open>
  C5 (as stated, refuted). In the missing-index-keys mode the record of row 3 fails
  the validation of its bytes; the entry of severity \<open>Error\<close> is written, and the
  record is hashed and counted all the same: its bytes 3, 255 open the digest input and
  two documents are seen.
\<close>

theorem malformed_document_is_hashed:
  "\<not> isOK (validateBSON ex_bson [3, 255] kDefault) \<and>
   (case hashForCollectionCheck ex_opCtx ex_bson (ex_coll [] ex_store ex_malformedScan)
           Date_t_max
           (ex_hasher (Some ex_missingKeysParams) int64_max int64_max ex_malformedScan []) [] of
      (r, h, log) \<Rightarrow>
        r = Returned Status_OK \<and> m_state h = [3, 255, 1, 10] \<and> docsSeen h = 2 \<and>
        map severity log = [Error] \<and> map msg log = [''Document is not well-formed BSON''])"
  by (simp add: ex_defs eval_defs)

text \<open>
  C5 (amended). In the missing-index-keys mode, a found record whose bytes fail the
  validation gets a health log entry, a \<open>Warning\<close> when the status is
  \<open>NonConformantBSON\<close> and an \<open>Error\<close> otherwise, and is then treated like any other
  record: if it has an \<^verbatim>\<open>_id\<close> field and the ceilings admit it, its raw bytes are
  appended to the digest input, it is counted, and the scan goes on with the next item
  (or stops at the deadline).
\<close>

theorem malformed_document_logged_then_hashed:
  assumes "isOK (checkForInterruptNoAssert opCtx i)"
    and "findRecord collPtr rid = Some rcd"
    and "m_secondaryIndexCheckParameters h = Some p"
    and "getValidateMode p = dataConsistencyAndMissingIndexKeysCheck"
    and "\<not> isOK (validateBSON bson rcd (getBsonValidateMode p))"
    and "hasField (toBson bson rcd) ''_id''"
    and "canHashForCollectionCheck bson h rcd"
  shows "\<exists>h2 more.
     severity (malformedEntry h collPtr (validateBSON bson rcd (getBsonValidateMode p)) rid
                 (idKey objId)) =
       (if code (validateBSON bson rcd (getBsonValidateMode p)) = NonConformantBSON
        then Warning else Error) \<and>
     m_state h2 = m_state h @ rcd \<and>
     m_countDocsSeen h2 = m_countDocsSeen h + 1 \<and>
     m_bytesSeen h2 = m_bytesSeen h + int (objsize bson rcd) \<and>
     collectionLoop opCtx bson collPtr deadline i (Advanced objId rid # exec) h log =
       (if now opCtx i > deadline
        then (ExitLoop ADVANCED, h2,
              log @ malformedEntry h collPtr (validateBSON bson rcd (getBsonValidateMode p)) rid
                      (idKey objId) # more)
        else collectionLoop opCtx bson collPtr deadline (Suc i) exec h2
               (log @ malformedEntry h collPtr (validateBSON bson rcd (getBsonValidateMode p))
                        rid (idKey objId) # more))"
proof -
  define E where
    "E = malformedEntry h collPtr (validateBSON bson rcd (getBsonValidateMode p)) rid (idKey objId)"
  have v: "validateRecord bson collPtr h rcd rid (idKey objId) log = log @ [E]"
    using assms(3,4,5) by (simp add: validateRecord_def E_def Let_def)
  obtain h1 log2 where hl:
    "checkMissingKeys collPtr h (toBson bson rcd) rid (idKey objId) (log @ [E]) = (h1, log2)"
    by (cases "checkMissingKeys collPtr h (toBson bson rcd) rid (idKey objId) (log @ [E])") auto
  from checkMissingKeys_fields(10)[OF hl] obtain more where more: "log2 = log @ E # more"
    by auto
  have step: "collectionLoop opCtx bson collPtr deadline i (Advanced objId rid # exec) h log =
       (if now opCtx i > deadline
        then (ExitLoop ADVANCED, accepted bson h1 rcd (idKey objId), log @ E # more)
        else collectionLoop opCtx bson collPtr deadline (Suc i) exec
               (accepted bson h1 rcd (idKey objId)) (log @ E # more))"
    unfolding collectionLoop_found[OF assms(1,2)] using assms(6,7) hl more
    by (simp add: v Let_def accepted_def)
  show ?thesis
    using step accepted_fields(3,4,5)[OF hl] unfolding E_def
    by (intro exI[of _ "accepted bson h1 rcd (idKey objId)"] exI[of _ more]) simp
qed

theorem malformed_document_logged_then_hashed_witness:
  "isOK (checkForInterruptNoAssert ex_opCtx 0) \<and>
   findRecord (ex_coll [] ex_store ex_malformedScan) 3 = Some [3, 255] \<and>
   getValidateMode ex_missingKeysParams = dataConsistencyAndMissingIndexKeysCheck \<and>
   \<not> isOK (validateBSON ex_bson [3, 255] (getBsonValidateMode ex_missingKeysParams)) \<and>
   hasField (toBson ex_bson [3, 255]) ''_id'' \<and>
   (\<exists>h2 more.
      m_state h2 = [3, 255] \<and> m_countDocsSeen h2 = 1 \<and>
      collectionLoop ex_opCtx ex_bson (ex_coll [] ex_store ex_malformedScan) Date_t_max 0
        [Advanced (ex_key 3) 3]
        (ex_hasher (Some ex_missingKeysParams) int64_max int64_max ex_malformedScan []) [] =
      (ExitLoop IS_EOF, h2,
       malformedEntry
         (ex_hasher (Some ex_missingKeysParams) int64_max int64_max ex_malformedScan [])
         (ex_coll [] ex_store ex_malformedScan) (Status InvalidBSON ''not well-formed'') 3
         (idKey (ex_key 3)) # more))"
proof -
  let ?h = "ex_hasher (Some ex_missingKeysParams) int64_max int64_max ex_malformedScan []"
  let ?c = "ex_coll [] ex_store ex_malformedScan"
  have a: "isOK (checkForInterruptNoAssert ex_opCtx 0)"
    by (simp add: ex_opCtx_def isOK_def Status_OK_def)
  have b: "findRecord ?c 3 = Some [3, 255]"
    by (simp add: ex_coll_def ex_store_def)
  have c: "m_secondaryIndexCheckParameters ?h = Some ex_missingKeysParams"
    by (simp add: ex_hasher_def newHasher_def)
  have d: "getValidateMode ex_missingKeysParams = dataConsistencyAndMissingIndexKeysCheck"
    by (simp add: ex_missingKeysParams_def)
  have e: "\<not> isOK (validateBSON ex_bson [3, 255] (getBsonValidateMode ex_missingKeysParams))"
    by (simp add: ex_bson_def ex_validateBSON_def isOK_def)
  have f: "hasField (toBson ex_bson [3, 255]) ''_id''"
    by (simp add: ex_bson_def ex_toBson_def hasField_def)
  have g: "canHashForCollectionCheck ex_bson ?h [3, 255]"
    by (simp add: canHashForCollectionCheck_def countSeen_def docsSeen_def keysSeen_def
        ex_hasher_def newHasher_def)
  have st: "validateBSON ex_bson [3, 255] (getBsonValidateMode ex_missingKeysParams) =
              Status InvalidBSON ''not well-formed''"
    by (simp add: ex_bson_def ex_validateBSON_def)
  have z: "\<not> now ex_opCtx 0 > Date_t_max" by (simp add: ex_opCtx_def Date_t_max_def)
  have h0: "m_state ?h = []" "m_countDocsSeen ?h = 0"
    by (simp_all add: ex_hasher_def newHasher_def md5_init_state_def)
  from malformed_document_logged_then_hashed[OF a b c d e f g, where objId = "ex_key 3"
      and deadline = Date_t_max and exec = "[]" and log = "[]"]
  obtain h2 more where
    "m_state h2 = m_state ?h @ [3, 255]" "m_countDocsSeen h2 = m_countDocsSeen ?h + 1"
    "collectionLoop ex_opCtx ex_bson ?c Date_t_max 0 [Advanced (ex_key 3) 3] ?h [] =
       (ExitLoop IS_EOF, h2,
        malformedEntry ?h ?c (Status InvalidBSON ''not well-formed'') 3 (idKey (ex_key 3)) # more)"
    using z by (auto simp: st)
  then show ?thesis using a b d e f h0 by auto
qed

lemma wellKeyed_Nil: "wellKeyed bson collPtr []"
  by (simp add: wellKeyed_def)

lemma wellKeyed_Advanced:
  "wellKeyed bson collPtr (Advanced objId rid # exec) \<longleftrightarrow>
     (case findRecord collPtr rid of None \<Rightarrow> True | Some rcd \<Rightarrow> hasField (toBson bson rcd) ''_id'') \<and>
     wellKeyed bson collPtr exec"
  by (auto simp: wellKeyed_def split: option.splits)

lemma hashForCollectionCheck_exec:
  assumes "m_exec h = Some exec"
  shows "hashForCollectionCheck opCtx bson collPtr deadline h log =
     (case collectionLoop opCtx bson collPtr deadline 0 exec h log of
        (ExitLoop lastState, h', log') \<Rightarrow>
          (Returned Status_OK,
           if lastState = IS_EOF then h'\<lparr>m_lastKeySeen := m_maxKey h'\<rparr> else h', log')
      | (ReturnStatus status, h', log') \<Rightarrow> (Returned status, h', log')
      | (Throws e, h', log') \<Rightarrow> (Threw e, h', log'))"
  using assms by (simp add: hashForCollectionCheck_def)

text \<open>
  C4 (as stated, refuted). No interruption check fails, and yet the scan is aborted
  at its first item: the record of row 4 has no \<^verbatim>\<open>_id\<close> field, and the hash returns
  \<open>NoSuchKey\<close> with nothing hashed; the record of row 1 behind it is never visited.
\<close>

theorem document_without_id_aborts_scan:
  "isOK (checkForInterruptNoAssert ex_opCtx 0) \<and>
   findRecord (ex_coll [] ex_store ex_noIdScan) 1 = Some [1, 10] \<and>
   (case hashForCollectionCheck ex_opCtx ex_bson (ex_coll [] ex_store ex_noIdScan) Date_t_max
           (ex_hasher None int64_max int64_max ex_noIdScan []) [] of
      (r, h, log) \<Rightarrow>
        r = Returned (Status NoSuchKey ''Document with record ID RecordId(4) missing _id'') \<and>
        m_state h = [] \<and> docsSeen h = 0 \<and> log = [])"
  by (simp add: ex_defs eval_defs RecordId_toString_def digit_def)

text \<open>
  C4 (amended). When no interruption check fails, the cursor does not throw and every
  found document has an \<^verbatim>\<open>_id\<close> field, the collection hash returns OK and its scan
  ends only at the end of the range, at the deadline or at a ceiling, whatever records
  are missing, whatever bytes fail the validation and whatever index keys are missing.
  (A found document without an \<^verbatim>\<open>_id\<close> field does end the scan, with \<open>NoSuchKey\<close>.)
\<close>

theorem anomalies_do_not_abort_scan:
  assumes "\<forall>j. isOK (checkForInterruptNoAssert opCtx j)"
    and "wellKeyed bson collPtr exec"
    and "m_exec h = Some exec"
  shows "fst (hashForCollectionCheck opCtx bson collPtr deadline h log) = Returned Status_OK \<and>
         legitimateExit opCtx bson collPtr deadline exec
           (collectionLoop opCtx bson collPtr deadline 0 exec h log)"
proof -
  have l: "legitimateExit opCtx bson collPtr deadline exec
             (collectionLoop opCtx bson collPtr deadline 0 exec h log)"
    using collectionLoop_exits[where opCtx = opCtx and bson = bson and collPtr = collPtr
        and exec = exec and deadline = deadline and i = 0 and h = h and log = log] assms(1,2)
    by blast
  then show ?thesis
    unfolding hashForCollectionCheck_exec[OF assms(3)]
    by (auto simp: legitimateExit_def split: prod.splits LoopExit.splits if_splits)
qed

theorem anomalies_do_not_abort_scan_witness:
  "isOK (checkForInterruptNoAssert ex_opCtx 0) \<and>
   findRecord (ex_coll [ex_index []] ex_store ex_anomalyScan) 9 = None \<and>
   \<not> isOK (validateBSON ex_bson [3, 255] kDefault) \<and>
   wellKeyed ex_bson (ex_coll [ex_index []] ex_store ex_anomalyScan) ex_anomalyScan \<and>
   (case hashForCollectionCheck ex_opCtx ex_bson (ex_coll [ex_index []] ex_store ex_anomalyScan)
           Date_t_max
           (ex_hasher (Some ex_missingKeysParams) int64_max int64_max ex_anomalyScan
              [ex_index []]) [] of
      (r, h, log) \<Rightarrow>
        r = Returned Status_OK \<and> m_state h = [3, 255, 6, 30, 31] \<and> docsSeen h = 2 \<and>
        lastKeySeen h = [(''_id'', BMaxKey)] \<and>
        map msg log =
          [''Error fetching record from record id'', ''Document is not well-formed BSON'',
           ''Document has missing index keys'', ''Document has missing index keys''])"
proof -
  let ?c = "ex_coll [ex_index []] ex_store ex_anomalyScan"
  let ?h = "ex_hasher (Some ex_missingKeysParams) int64_max int64_max ex_anomalyScan
              [ex_index []]"
  have a: "\<forall>j. isOK (checkForInterruptNoAssert ex_opCtx j)"
    by (simp add: ex_opCtx_def isOK_def Status_OK_def)
  have b: "wellKeyed ex_bson ?c ex_anomalyScan"
    by (simp add: wellKeyed_Nil wellKeyed_Advanced ex_anomalyScan_def ex_coll_def ex_store_def
        ex_bson_def ex_toBson_def hasField_def)
  have c: "m_exec ?h = Some ex_anomalyScan"
    by (simp add: ex_hasher_def newHasher_def)
  have d: "fst (hashForCollectionCheck ex_opCtx ex_bson ?c Date_t_max ?h []) = Returned Status_OK"
    using anomalies_do_not_abort_scan[OF a b c] by simp
  have e: "case hashForCollectionCheck ex_opCtx ex_bson ?c Date_t_max ?h [] of
      (r, h, log) \<Rightarrow>
        m_state h = [3, 255, 6, 30, 31] \<and> docsSeen h = 2 \<and>
        lastKeySeen h = [(''_id'', BMaxKey)] \<and>
        map msg log =
          [''Error fetching record from record id'', ''Document is not well-formed BSON'',
           ''Document has missing index keys'', ''Document has missing index keys'']"
    by (simp add: ex_defs eval_defs)
  have f: "findRecord ?c 9 = None" by (simp add: ex_coll_def ex_store_def)
  have g: "\<not> isOK (validateBSON ex_bson [3, 255] kDefault)"
    by (simp add: ex_bson_def ex_validateBSON_def isOK_def)
  show ?thesis using a b d e f g by (auto split: prod.splits)
qed

text \<open>The scan and the batch of the specification: without interruption, with the
  clock before the deadline, a cursor that does not throw and found documents that all
  have an \<^verbatim>\<open>_id\<close> field, the scan hashes the records of the batch, and no other.\<close>

lemma probedKeys_count:
  "int (length (concat (map (probedKeys obj rid) indexes))) = keysProbed indexes obj"
  by (induction indexes) (simp_all add: keysProbed_def probedKeys_def)

lemma checkMissingKeys_count:
  assumes "checkMissingKeys collPtr h obj rid rk log = (h1, log1)"
  shows "m_countKeysSeen h1 =
     m_countKeysSeen h +
     (if missingKeysMode (m_secondaryIndexCheckParameters h) then keysProbed (m_indexes h) obj
      else 0)"
  using assms probedKeys_count[of obj rid "m_indexes h"]
  by (auto simp: checkMissingKeys_closed Let_def simp del: length_concat split: if_splits)

lemma canHashForCollectionCheck_iff:
  "canHashForCollectionCheck bson h rcd \<longleftrightarrow>
     countSeen h = 0 \<or>
     (bytesSeen h + int (objsize bson rcd) \<le> m_maxBytes h \<and> countSeen h + 1 \<le> m_maxCount h)"
  by (auto simp: canHashForCollectionCheck_def bytesSeen_def)

lemma foundRecords_Nil: "foundRecords collPtr [] = []"
  by (simp add: foundRecords_def)

lemma foundRecords_missing:
  "findRecord collPtr rid = None \<Longrightarrow>
   foundRecords collPtr (Advanced objId rid # exec) = foundRecords collPtr exec"
  by (simp add: foundRecords_def foundRecord_def)

lemma foundRecords_found:
  "findRecord collPtr rid = Some rcd \<Longrightarrow>
   foundRecords collPtr (Advanced objId rid # exec) = rcd # foundRecords collPtr exec"
  by (simp add: foundRecords_def foundRecord_def)

lemma batchOf_Nil: "batchOf bson h [] = []"
  by (simp add: batchOf_def)

lemma batchOf_refused:
  "\<not> canHashForCollectionCheck bson h rcd \<Longrightarrow> batchOf bson h (rcd # recs) = []"
  by (simp add: batchOf_def scanItem_def canHashForCollectionCheck_iff)

lemma batchOf_accepted:
  assumes can: "canHashForCollectionCheck bson h rcd"
    and hl: "checkMissingKeys collPtr h (toBson bson rcd) rid rk0 log1 = (h1, log2)"
  shows "batchOf bson h (rcd # recs) = rcd # batchOf bson (accepted bson h1 rcd rk) recs"
proof -
  let ?a = "accepted bson h1 rcd rk"
  let ?keys = "if missingKeysMode (m_secondaryIndexCheckParameters h)
               then keysProbed (m_indexes h) (toBson bson rcd) else 0"
  have f: "m_maxBytes ?a = m_maxBytes h" "m_maxCount ?a = m_maxCount h"
    "bytesSeen ?a = bytesSeen h + int (objsize bson rcd)"
    using accepted_fields[OF hl] by (simp_all add: bytesSeen_def)
  have c: "countSeen ?a = countSeen h + 1 + ?keys"
    using accepted_fields(3)[OF hl] checkMissingKeys_count[OF hl]
    by (simp add: countSeen_def docsSeen_def keysSeen_def accepted_def)
  have s: "scanItem bson ?a = scanItem bson h"
    using checkMissingKeys_fields(7,8)[OF hl] by (auto simp: scanItem_def accepted_def)
  have "batchOf bson h (rcd # recs) =
        rcd # acceptedItems (m_maxBytes h) (m_maxCount h) (bytesSeen h + int (objsize bson rcd))
                (countSeen h + 1 + ?keys) (map (scanItem bson h) recs)"
    using can unfolding canHashForCollectionCheck_iff by (simp add: batchOf_def scanItem_def)
  then show ?thesis unfolding batchOf_def f c s by simp
qed

lemma collectionLoop_batch:
  "(\<forall>j. isOK (checkForInterruptNoAssert opCtx j)) \<longrightarrow> (\<forall>j. \<not> now opCtx j > deadline) \<longrightarrow>
   wellKeyed bson collPtr exec \<longrightarrow>
     (case collectionLoop opCtx bson collPtr deadline i exec h log of
        (exit, h', log') \<Rightarrow>
          (exit = ExitLoop IS_EOF \<or> exit = ReturnStatus Status_OK) \<and>
          m_state h' = m_state h @ concat (batchOf bson h (foundRecords collPtr exec)) \<and>
          m_countDocsSeen h' =
            m_countDocsSeen h + int (length (batchOf bson h (foundRecords collPtr exec))))"
proof (induction i exec h log rule: collectionLoop_cases[where opCtx = opCtx and bson = bson
      and collPtr = collPtr and deadline = deadline])
  case (eof i h log)
  show ?case by (simp add: foundRecords_Nil batchOf_Nil)
next
  case (getNextThrows i e exec h log)
  show ?case by (simp add: wellKeyed_throws)
next
  case (interrupted i objId rid exec h log)
  then show ?case by blast
next
  case (missing i objId rid exec h log)
  then show ?case using wellKeyed_Cons by (auto simp: foundRecords_missing split: prod.splits)
next
  case (noId i objId rid exec h log rcd)
  then show ?case using wellKeyed_head by blast
next
  case (ceiling i objId rid exec h log rcd)
  then show ?case by (simp add: foundRecords_found batchOf_refused)
next
  case (deadline i objId rid exec h log rcd h1 log2)
  then show ?case by blast
next
  case (continue i objId rid exec h log rcd h1 log2)
  have b: "batchOf bson h (foundRecords collPtr (Advanced objId rid # exec)) =
           rcd # batchOf bson (accepted bson h1 rcd (idKey objId)) (foundRecords collPtr exec)"
    unfolding foundRecords_found[OF continue(2)] by (rule batchOf_accepted[OF continue(4,5)])
  show ?case
  proof (intro impI)
    assume a: "\<forall>j. isOK (checkForInterruptNoAssert opCtx j)" "\<forall>j. \<not> now opCtx j > deadline"
      "wellKeyed bson collPtr (Advanced objId rid # exec)"
    from continue(7) a(1,2) wellKeyed_Cons[OF a(3)]
    have "case collectionLoop opCtx bson collPtr deadline (Suc i) exec
                 (accepted bson h1 rcd (idKey objId)) log2 of
            (exit, h', log') \<Rightarrow>
              (exit = ExitLoop IS_EOF \<or> exit = ReturnStatus Status_OK) \<and>
              m_state h' = m_state (accepted bson h1 rcd (idKey objId)) @
                concat (batchOf bson (accepted bson h1 rcd (idKey objId))
                          (foundRecords collPtr exec)) \<and>
              m_countDocsSeen h' = m_countDocsSeen (accepted bson h1 rcd (idKey objId)) +
                int (length (batchOf bson (accepted bson h1 rcd (idKey objId))
                               (foundRecords collPtr exec)))"
      by simp
    then show "case collectionLoop opCtx bson collPtr deadline (Suc i) exec
                 (accepted bson h1 rcd (idKey objId)) log2 of
            (exit, h', log') \<Rightarrow>
              (exit = ExitLoop IS_EOF \<or> exit = ReturnStatus Status_OK) \<and>
              m_state h' = m_state h @
                concat (batchOf bson h (foundRecords collPtr (Advanced objId rid # exec))) \<and>
              m_countDocsSeen h' = m_countDocsSeen h +
                int (length (batchOf bson h (foundRecords collPtr (Advanced objId rid # exec))))"
      unfolding b accepted_fields(3,5)[OF continue(5)] by (auto split: prod.splits)
  qed
qed

lemma hashForCollectionCheck_batch:
  assumes "m_exec h = Some exec"
    and "\<forall>j. isOK (checkForInterruptNoAssert opCtx j)"
    and "\<forall>j. \<not> now opCtx j > deadline"
    and "wellKeyed bson collPtr exec"
  shows "\<exists>h' log'.
     hashForCollectionCheck opCtx bson collPtr deadline h log = (Returned Status_OK, h', log') \<and>
     m_state h' = m_state h @ concat (batchOf bson h (foundRecords collPtr exec)) \<and>
     docsSeen h' = docsSeen h + int (length (batchOf bson h (foundRecords collPtr exec)))"
proof -
  obtain exit h1 log1 where
    loop: "collectionLoop opCtx bson collPtr deadline 0 exec h log = (exit, h1, log1)"
    by (cases "collectionLoop opCtx bson collPtr deadline 0 exec h log") auto
  from collectionLoop_batch[where opCtx = opCtx and deadline = deadline and bson = bson
      and collPtr = collPtr and exec = exec and i = 0 and h = h and log = log] assms(2-4) loop
  have r: "exit = ExitLoop IS_EOF \<or> exit = ReturnStatus Status_OK"
    "m_state h1 = m_state h @ concat (batchOf bson h (foundRecords collPtr exec))"
    "m_countDocsSeen h1 =
       m_countDocsSeen h + int (length (batchOf bson h (foundRecords collPtr exec)))"
    by auto
  from r(1) show ?thesis
  proof
    assume "exit = ExitLoop IS_EOF"
    then show ?thesis
      unfolding hashForCollectionCheck_exec[OF assms(1)] loop using r(2,3)
      by (simp add: docsSeen_def)
  next
    assume "exit = ReturnStatus Status_OK"
    then show ?thesis
      unfolding hashForCollectionCheck_exec[OF assms(1)] loop using r(2,3)
      by (simp add: docsSeen_def)
  qed
qed

text \<open>The batch is a prefix of the found records, and it depends on the hasher only
  through its ceilings, its mode, its counters and the definitions of its indexes.\<close>

lemma acceptedItems_prefix:
  assumes "\<And>rcd. fst (f rcd) = rcd"
  shows "\<exists>n. acceptedItems maxBytes maxCount bytes count (map f recs) = take n recs"
proof (induction recs arbitrary: bytes count)
  case Nil
  show ?case by simp
next
  case (Cons rcd recs)
  obtain sz nkeys where f: "f rcd = (rcd, sz, nkeys)"
    using assms[of rcd] by (cases "f rcd") auto
  show ?case
  proof (cases "count = 0 \<or> (bytes + sz \<le> maxBytes \<and> count + 1 \<le> maxCount)")
    case True
    from Cons.IH[of "bytes + sz" "count + 1 + nkeys"] obtain n where
      "acceptedItems maxBytes maxCount (bytes + sz) (count + 1 + nkeys) (map f recs) =
         take n recs" by blast
    then show ?thesis using True f by (intro exI[of _ "Suc n"]) simp
  next
    case False
    then show ?thesis using f by (intro exI[of _ 0]) simp
  qed
qed

lemma batchOf_prefix: "\<exists>n. batchOf bson h recs = take n recs"
  unfolding batchOf_def by (rule acceptedItems_prefix) (simp add: scanItem_def)

lemma keysProbed_definitions:
  "keysProbed (map (\<lambda>e. e\<lparr>sortedData := []\<rparr>) indexes) obj = keysProbed indexes obj"
  by (induction indexes) (simp_all add: keysProbed_def indexChecked_def)

lemma batchOf_sameSetup:
  assumes "sameSetup h1 h2"
  shows "batchOf bson h1 recs = batchOf bson h2 recs"
proof -
  have "keysProbed (m_indexes h1) obj = keysProbed (m_indexes h2) obj" for obj
    using assms keysProbed_definitions[of "m_indexes h1" obj]
      keysProbed_definitions[of "m_indexes h2" obj]
    by (simp add: sameSetup_def sameIndexDefinitions_def)
  then have "scanItem bson h1 = scanItem bson h2"
    using assms by (auto simp: scanItem_def sameSetup_def)
  then show ?thesis
    using assms by (simp add: batchOf_def sameSetup_def bytesSeen_def countSeen_def
        docsSeen_def keysSeen_def)
qed

text \<open>
  C3 (as stated, refuted). Three completed batches. Over a range of one key whose
  record is missing the batch is empty. With a count ceiling of 0 the first document is
  accepted and the batch holds one document. In the missing-index-keys mode with a
  count ceiling of 2, the first document brings two probed keys, the count of the batch
  is 3, and the second document is refused although it would only be the second one.
\<close>

theorem ceilings_counterexample:
  "(case hashForCollectionCheck ex_opCtx ex_bson (ex_coll [] ex_store [Advanced (ex_key 9) 9])
           Date_t_max (ex_hasher None 10 1000 [Advanced (ex_key 9) 9] []) [] of
      (r, h, log) \<Rightarrow> r = Returned Status_OK \<and> docsSeen h = 0 \<and> countSeen h = 0) \<and>
   (case hashForCollectionCheck ex_opCtx ex_bson (ex_coll [] ex_store ex_twoDocScan)
           Date_t_max (ex_hasher None 0 1000 ex_twoDocScan []) [] of
      (r, h, log) \<Rightarrow> r = Returned Status_OK \<and> docsSeen h = 1 \<and> m_maxCount h = 0) \<and>
   (case hashForCollectionCheck ex_opCtx ex_bson (ex_coll [ex_fullIndex] ex_store ex_twoDocScan)
           Date_t_max
           (ex_hasher (Some ex_missingKeysParams) 2 1000 ex_twoDocScan [ex_fullIndex]) [] of
      (r, h, log) \<Rightarrow>
        r = Returned Status_OK \<and> docsSeen h = 1 \<and> keysSeen h = 2 \<and> countSeen h = 3 \<and>
        m_maxCount h = 2 \<and> bytesSeen h = 3 \<and> m_maxBytes h = 1000 \<and> log = [])"
  by (simp add: ex_defs eval_defs)

text \<open>
  C3 (amended). The first document found is accepted whatever the ceilings are; a
  later one is refused as soon as the bytes seen plus its size would exceed
  \<open>maxBytes\<close>, or the count seen plus one would exceed \<open>maxCount\<close>, where the count
  seen is the documents seen plus the index keys probed. At the first refused document
  the scan stops: the loop returns OK there with the hasher as it was, whatever items
  lie behind. For a hasher that starts with its counters at zero it follows that the
  documents seen are at most \<open>maxCount\<close>, or at most one; that the bytes seen are at
  most \<open>maxBytes\<close> unless at most one document was accepted; and that a hash that
  returns OK over a range holding at least one found record has seen at least one
  document. When no interruption check fails, the clock does not pass the deadline, the
  cursor does not throw and every found document has an \<^verbatim>\<open>_id\<close> field, the hash
  returns OK and has hashed exactly the batch of the found records: the documents up to
  the first refused one, in the order of the scan, and none behind it.
\<close>

theorem ceilings_after_first_document:
  assumes "m_exec h = Some exec"
    and "m_countDocsSeen h = 0" and "m_countKeysSeen h = 0" and "m_bytesSeen h = 0"
    and "hashForCollectionCheck opCtx bson collPtr deadline h log = (r, h', log')"
  shows "(canHashForCollectionCheck bson g obj \<longleftrightarrow>
            countSeen g = 0 \<or>
            (bytesSeen g + int (objsize bson obj) \<le> m_maxBytes g \<and>
             countSeen g + 1 \<le> m_maxCount g)) \<and>
         (isOK (checkForInterruptNoAssert opCtx i) \<and> findRecord collPtr rid = Some obj \<and>
          hasField (toBson bson obj) ''_id'' \<and> \<not> canHashForCollectionCheck bson g obj \<longrightarrow>
            collectionLoop opCtx bson collPtr deadline i (Advanced objId rid # rest) g lg =
              (ReturnStatus Status_OK, g, validateRecord bson collPtr g obj rid (idKey objId) lg)) \<and>
         (docsSeen h' \<le> m_maxCount h \<or> docsSeen h' \<le> 1) \<and>
         (bytesSeen h' \<le> m_maxBytes h \<or> docsSeen h' \<le> 1) \<and>
         (r = Returned Status_OK \<and> foundRecords collPtr exec \<noteq> [] \<longrightarrow> 1 \<le> docsSeen h') \<and>
         ((\<forall>j. isOK (checkForInterruptNoAssert opCtx j)) \<and> (\<forall>j. \<not> now opCtx j > deadline) \<and>
          wellKeyed bson collPtr exec \<longrightarrow>
            r = Returned Status_OK \<and>
            m_state h' = m_state h @ concat (batchOf bson h (foundRecords collPtr exec)) \<and>
            docsSeen h' = int (length (batchOf bson h (foundRecords collPtr exec))))"
proof -
  obtain exit h1 log1 where
    loop: "collectionLoop opCtx bson collPtr deadline 0 exec h log = (exit, h1, log1)"
    by (cases "collectionLoop opCtx bson collPtr deadline 0 exec h log") auto
  have inv0: "batchInv h" using assms(2-4) by (simp add: batchInv_def)
  have inv: "batchInv h1" "m_maxCount h1 = m_maxCount h" "m_maxBytes h1 = m_maxBytes h"
    using collectionLoop_inv[where h = h and opCtx = opCtx and bson = bson and collPtr = collPtr
        and deadline = deadline and i = 0 and exec = exec and log = log] inv0 loop by auto
  have ne: "completedOK exit \<longrightarrow> foundRecords collPtr exec \<noteq> [] \<longrightarrow> 1 \<le> m_countDocsSeen h1"
    using collectionLoop_nonempty[where h = h and opCtx = opCtx and bson = bson
        and collPtr = collPtr and deadline = deadline and i = 0 and exec = exec and log = log]
      inv0 loop by auto
  have same: "m_countDocsSeen h' = m_countDocsSeen h1" "m_bytesSeen h' = m_bytesSeen h1"
    and ok: "r = Returned Status_OK \<longrightarrow> completedOK exit"
    using assms(5) loop unfolding hashForCollectionCheck_exec[OF assms(1)]
    by (auto simp: completedOK_def isOK_def Status_OK_def split: LoopExit.splits if_splits)
  have bounds: "(m_countDocsSeen h1 \<le> m_maxCount h \<or> m_countDocsSeen h1 \<le> 1) \<and>
     (m_bytesSeen h1 \<le> m_maxBytes h \<or> m_countDocsSeen h1 \<le> 1)"
    using inv by (auto simp: batchInv_def split: if_splits)
  have rule: "canHashForCollectionCheck bson g obj \<longleftrightarrow>
            countSeen g = 0 \<or>
            (bytesSeen g + int (objsize bson obj) \<le> m_maxBytes g \<and>
             countSeen g + 1 \<le> m_maxCount g)"
    by (rule canHashForCollectionCheck_iff)
  have stop: "isOK (checkForInterruptNoAssert opCtx i) \<and> findRecord collPtr rid = Some obj \<and>
          hasField (toBson bson obj) ''_id'' \<and> \<not> canHashForCollectionCheck bson g obj \<longrightarrow>
            collectionLoop opCtx bson collPtr deadline i (Advanced objId rid # rest) g lg =
              (ReturnStatus Status_OK, g, validateRecord bson collPtr g obj rid (idKey objId) lg)"
    by (auto simp: Let_def idKey_def)
  have exact: "(\<forall>j. isOK (checkForInterruptNoAssert opCtx j)) \<and>
          (\<forall>j. \<not> now opCtx j > deadline) \<and> wellKeyed bson collPtr exec \<longrightarrow>
            r = Returned Status_OK \<and>
            m_state h' = m_state h @ concat (batchOf bson h (foundRecords collPtr exec)) \<and>
            docsSeen h' = int (length (batchOf bson h (foundRecords collPtr exec)))"
  proof (intro impI, elim conjE)
    assume a: "\<forall>j. isOK (checkForInterruptNoAssert opCtx j)" "\<forall>j. \<not> now opCtx j > deadline"
      "wellKeyed bson collPtr exec"
    from hashForCollectionCheck_batch[OF assms(1) a, of log] assms(5) assms(2)
    show "r = Returned Status_OK \<and>
            m_state h' = m_state h @ concat (batchOf bson h (foundRecords collPtr exec)) \<and>
            docsSeen h' = int (length (batchOf bson h (foundRecords collPtr exec)))"
      by (auto simp: docsSeen_def)
  qed
  have b: "(docsSeen h' \<le> m_maxCount h \<or> docsSeen h' \<le> 1) \<and>
         (bytesSeen h' \<le> m_maxBytes h \<or> docsSeen h' \<le> 1) \<and>
         (r = Returned Status_OK \<and> foundRecords collPtr exec \<noteq> [] \<longrightarrow> 1 \<le> docsSeen h')"
    using bounds ne ok same by (simp add: docsSeen_def bytesSeen_def)
  show ?thesis using rule stop b exact by blast
qed

theorem ceilings_after_first_document_witness:
  "m_exec (ex_hasher None 10 5 ex_threeDocScan []) = Some ex_threeDocScan \<and>
   foundRecords (ex_coll [] ex_store ex_threeDocScan) ex_threeDocScan =
     [[2, 20, 21], [6, 30, 31], [1, 10]] \<and>
   (\<forall>j. isOK (checkForInterruptNoAssert ex_opCtx j)) \<and>
   (\<forall>j. \<not> now ex_opCtx j > Date_t_max) \<and>
   wellKeyed ex_bson (ex_coll [] ex_store ex_threeDocScan) ex_threeDocScan \<and>
   batchOf ex_bson (ex_hasher None 10 5 ex_threeDocScan [])
     [[2, 20, 21], [6, 30, 31], [1, 10]] = [[2, 20, 21]] \<and>
   (case hashForCollectionCheck ex_opCtx ex_bson (ex_coll [] ex_store ex_threeDocScan)
           Date_t_max (ex_hasher None 10 5 ex_threeDocScan []) [] of
      (r, h, log) \<Rightarrow>
        r = Returned Status_OK \<and> m_state h = [2, 20, 21] \<and> docsSeen h = 1 \<and>
        bytesSeen h \<le> 5) \<and>
   isOK (checkForInterruptNoAssert ex_opCtx 1) \<and>
   findRecord (ex_coll [] ex_store ex_threeDocScan) 6 = Some [6, 30, 31] \<and>
   hasField (toBson ex_bson [6, 30, 31]) ''_id'' \<and>
   \<not> canHashForCollectionCheck ex_bson
       ((ex_hasher None 10 5 ex_threeDocScan [])
          \<lparr> m_countDocsSeen := 1, m_bytesSeen := 3, m_state := [2, 20, 21] \<rparr>) [6, 30, 31] \<and>
   collectionLoop ex_opCtx ex_bson (ex_coll [] ex_store ex_threeDocScan) Date_t_max 1
     [Advanced (ex_key 6) 6, Advanced (ex_key 1) 1]
     ((ex_hasher None 10 5 ex_threeDocScan [])
        \<lparr> m_countDocsSeen := 1, m_bytesSeen := 3, m_state := [2, 20, 21] \<rparr>) [] =
     (ReturnStatus Status_OK,
      (ex_hasher None 10 5 ex_threeDocScan [])
        \<lparr> m_countDocsSeen := 1, m_bytesSeen := 3, m_state := [2, 20, 21] \<rparr>, [])"
proof -
  let ?g = "(ex_hasher None 10 5 ex_threeDocScan [])
              \<lparr> m_countDocsSeen := 1, m_bytesSeen := 3, m_state := [2, 20, 21] \<rparr>"
  let ?c = "ex_coll [] ex_store ex_threeDocScan"
  let ?h = "ex_hasher None 10 5 ex_threeDocScan []"
  obtain r h log where run:
    "hashForCollectionCheck ex_opCtx ex_bson ?c Date_t_max ?h [] = (r, h, log)"
    by (cases "hashForCollectionCheck ex_opCtx ex_bson ?c Date_t_max ?h []") auto
  have a: "m_exec ?h = Some ex_threeDocScan" and z: "m_countDocsSeen ?h = 0"
    "m_countKeysSeen ?h = 0" "m_bytesSeen ?h = 0" "m_maxCount ?h = 10" "m_maxBytes ?h = 5"
    "m_state ?h = []"
    by (simp_all add: ex_hasher_def newHasher_def md5_init_state_def)
  have f: "foundRecords ?c ex_threeDocScan = [[2, 20, 21], [6, 30, 31], [1, 10]]"
    by (simp add: foundRecords_def foundRecord_def ex_threeDocScan_def ex_coll_def ex_store_def)
  have i: "\<forall>j. isOK (checkForInterruptNoAssert ex_opCtx j)"
    and d: "\<forall>j. \<not> now ex_opCtx j > Date_t_max"
    by (simp_all add: ex_opCtx_def isOK_def Status_OK_def Date_t_max_def)
  have w: "wellKeyed ex_bson ?c ex_threeDocScan"
    by (simp add: ex_threeDocScan_def wellKeyed_Advanced wellKeyed_Nil ex_coll_def ex_store_def
        ex_bson_def ex_toBson_def hasField_def)
  have b: "batchOf ex_bson ?h [[2, 20, 21], [6, 30, 31], [1, 10]] = [[2, 20, 21]]"
    by (simp add: batchOf_def scanItem_def ex_hasher_def newHasher_def missingKeysMode_def
        bytesSeen_def countSeen_def docsSeen_def keysSeen_def ex_bson_def)
  have ok1: "isOK (checkForInterruptNoAssert ex_opCtx 1)"
    by (simp add: ex_opCtx_def isOK_def Status_OK_def)
  have fr: "findRecord ?c 6 = Some [6, 30, 31]" by (simp add: ex_coll_def ex_store_def)
  have hf: "hasField (toBson ex_bson [6, 30, 31]) ''_id''"
    by (simp add: ex_bson_def ex_toBson_def hasField_def)
  have nc: "\<not> canHashForCollectionCheck ex_bson ?g [6, 30, 31]"
    by (simp add: canHashForCollectionCheck_def countSeen_def docsSeen_def keysSeen_def
        ex_hasher_def newHasher_def ex_bson_def)
  have vr: "validateRecord ex_bson ?c ?g [6, 30, 31] 6 (idKey (ex_key 6)) [] = []"
    by (simp add: validateRecord_def ex_hasher_def newHasher_def)
  note inst = ceilings_after_first_document[where g = ?g and obj = "[6, 30, 31]" and i = 1
      and rid = 6 and objId = "ex_key 6" and rest = "[Advanced (ex_key 1) 1]" and lg = "[]",
      OF a z(1-3) run]
  from inst i d w
  have "r = Returned Status_OK \<and> m_state h = [2, 20, 21] \<and> docsSeen h = 1 \<and>
        (bytesSeen h \<le> 5 \<or> docsSeen h \<le> 1)"
    unfolding f b z by simp
  moreover have "bytesSeen h = 3"
    using run by (auto simp: ex_defs eval_defs ex_threeDocScan_def)
  moreover from inst ok1 fr hf nc
  have "collectionLoop ex_opCtx ex_bson ?c Date_t_max 1
          [Advanced (ex_key 6) 6, Advanced (ex_key 1) 1] ?g [] =
        (ReturnStatus Status_OK, ?g, [])"
    unfolding vr by blast
  ultimately show ?thesis using a f i d w b run ok1 fr hf nc by simp
qed

subsection \<open>The index scan\<close>

lemma indexLoop_interrupted:
  "\<not> isOK (checkForInterruptNoAssert opCtx i) \<Longrightarrow>
   indexLoop opCtx iam mc endKey i (e # es) h = (Some (checkForInterruptNoAssert opCtx i), h)"
  by simp

lemma indexLoop_step:
  "isOK (checkForInterruptNoAssert opCtx i) \<Longrightarrow>
   indexLoop opCtx iam mc endKey i (e # es) h =
     (if keyString e = endKey \<and>
         mc \<le> m_nConsecutiveIdenticalIndexKeysSeenAtEnd (foldKey iam endKey h e)
      then (None, foldKey iam endKey h e)
      else indexLoop opCtx iam mc endKey (Suc i) es (foldKey iam endKey h e))"
  by (simp add: Let_def foldKey_def hashKey_def md5_append_def key_string_compare_eq)

declare indexLoop.simps(2) [simp del]

lemma indexLoop_stop:
  "isOK (checkForInterruptNoAssert opCtx i) \<Longrightarrow> keyString e = endKey \<Longrightarrow>
   mc \<le> m_nConsecutiveIdenticalIndexKeysSeenAtEnd (foldKey iam endKey h e) \<Longrightarrow>
   indexLoop opCtx iam mc endKey i (e # es) h = (None, foldKey iam endKey h e)"
  by (simp add: indexLoop_step)

lemma indexLoop_go:
  "isOK (checkForInterruptNoAssert opCtx i) \<Longrightarrow>
   \<not> (keyString e = endKey \<and>
      mc \<le> m_nConsecutiveIdenticalIndexKeysSeenAtEnd (foldKey iam endKey h e)) \<Longrightarrow>
   indexLoop opCtx iam mc endKey i (e # es) h =
     indexLoop opCtx iam mc endKey (Suc i) es (foldKey iam endKey h e)"
  by (auto simp: indexLoop_step)

lemma foldKey_fields:
  "m_state (foldKey iam endKey h e) = m_state h @ keyString e"
  "m_countKeysSeen (foldKey iam endKey h e) = m_countKeysSeen h + 1"
  "m_bytesSeen (foldKey iam endKey h e) = m_bytesSeen h + int (length (keyString e))"
  "m_lastKeySeen (foldKey iam endKey h e) = toBsonSafe iam (keyString e)"
  "m_maxKey (foldKey iam endKey h e) = m_maxKey h"
  "m_nConsecutiveIdenticalIndexKeysSeenAtEnd (foldKey iam endKey h e) =
     m_nConsecutiveIdenticalIndexKeysSeenAtEnd h + (if keyString e = endKey then 1 else 0)"
  by (simp_all add: foldKey_def hashKey_def)

lemma foldl_foldKey_fields:
  "m_state (foldl (foldKey iam endKey) h es) = m_state h @ concat (map keyString es)"
  "m_countKeysSeen (foldl (foldKey iam endKey) h es) = m_countKeysSeen h + int (length es)"
  "m_bytesSeen (foldl (foldKey iam endKey) h es) =
     m_bytesSeen h + int (length (concat (map keyString es)))"
  "m_maxKey (foldl (foldKey iam endKey) h es) = m_maxKey h"
  "m_nConsecutiveIdenticalIndexKeysSeenAtEnd (foldl (foldKey iam endKey) h es) =
     m_nConsecutiveIdenticalIndexKeysSeenAtEnd h +
     int (length (filter (\<lambda>e. keyString e = endKey) es))"
  "m_lastKeySeen (foldl (foldKey iam endKey) h es) =
     (if es = [] then m_lastKeySeen h else toBsonSafe iam (keyString (last es)))"
  by (induction es arbitrary: h) (simp_all add: foldKey_fields)

text \<open>The loop consumes a prefix of the entries, each folded in by \<open>foldKey\<close>; it
  stops before the end of the entries only on a failed interruption check or with the
  count of keys equal to the end key at the ceiling.\<close>

lemma indexLoop_prefix:
  "\<exists>k \<le> length es.
     snd (indexLoop opCtx iam mc endKey i es h) = foldl (foldKey iam endKey) h (take k es) \<and>
     (case fst (indexLoop opCtx iam mc endKey i es h) of
        None \<Rightarrow>
          k = length es \<or>
          mc \<le> m_nConsecutiveIdenticalIndexKeysSeenAtEnd
                 (snd (indexLoop opCtx iam mc endKey i es h))
      | Some e \<Rightarrow> \<not> isOK e \<and> (\<exists>j. e = checkForInterruptNoAssert opCtx j))"
proof (induction es arbitrary: i h)
  case Nil
  show ?case by simp
next
  case (Cons e es)
  show ?case
  proof (cases "isOK (checkForInterruptNoAssert opCtx i)")
    case False
    then show ?thesis
      unfolding indexLoop_interrupted[OF False] by (intro exI[of _ 0]) auto
  next
    case ok: True
    show ?thesis
    proof (cases "keyString e = endKey \<and>
         mc \<le> m_nConsecutiveIdenticalIndexKeysSeenAtEnd (foldKey iam endKey h e)")
      case True
      then show ?thesis
        unfolding indexLoop_stop[OF ok conjunct1[OF True] conjunct2[OF True]]
        by (intro exI[of _ "Suc 0"]) simp
    next
      case False
      from Cons.IH[of "Suc i" "foldKey iam endKey h e"] obtain k where k: "k \<le> length es"
        "snd (indexLoop opCtx iam mc endKey (Suc i) es (foldKey iam endKey h e)) =
           foldl (foldKey iam endKey) (foldKey iam endKey h e) (take k es)"
        "(case fst (indexLoop opCtx iam mc endKey (Suc i) es (foldKey iam endKey h e)) of
            None \<Rightarrow>
              k = length es \<or>
              mc \<le> m_nConsecutiveIdenticalIndexKeysSeenAtEnd
                     (snd (indexLoop opCtx iam mc endKey (Suc i) es (foldKey iam endKey h e)))
          | Some e \<Rightarrow> \<not> isOK e \<and> (\<exists>j. e = checkForInterruptNoAssert opCtx j))"
        by blast
      have eq: "indexLoop opCtx iam mc endKey i (e # es) h =
                indexLoop opCtx iam mc endKey (Suc i) es (foldKey iam endKey h e)"
        by (rule indexLoop_go[OF ok False])
      show ?thesis unfolding eq using k
        by (intro exI[of _ "Suc k"]) (auto split: option.splits)
    qed
  qed
qed

text \<open>Without interruption and below the ceiling every entry is consumed.\<close>

lemma indexLoop_all:
  assumes "\<forall>j. isOK (checkForInterruptNoAssert opCtx j)"
    and "m_nConsecutiveIdenticalIndexKeysSeenAtEnd h +
           int (length (filter (\<lambda>e. keyString e = endKey) es)) < mc"
  shows "indexLoop opCtx iam mc endKey i es h = (None, foldl (foldKey iam endKey) h es)"
  using assms(2)
proof (induction es arbitrary: i h)
  case Nil
  show ?case by simp
next
  case (Cons e es)
  have ok: "isOK (checkForInterruptNoAssert opCtx i)" using assms(1) by simp
  have below: "\<not> (keyString e = endKey \<and>
         mc \<le> m_nConsecutiveIdenticalIndexKeysSeenAtEnd (foldKey iam endKey h e))"
    using Cons.prems by (auto simp: foldKey_fields)
  have "m_nConsecutiveIdenticalIndexKeysSeenAtEnd (foldKey iam endKey h e) +
           int (length (filter (\<lambda>e. keyString e = endKey) es)) < mc"
    using Cons.prems by (auto simp: foldKey_fields)
  from Cons.IH[OF this] show ?case
    unfolding indexLoop_go[OF ok below] by simp
qed

text \<open>Without interruption, a run of keys equal to the end key is consumed up to the
  ceiling.\<close>

lemma indexLoop_run:
  assumes "\<forall>j. isOK (checkForInterruptNoAssert opCtx j)"
    and "\<forall>e \<in> set run. keyString e = endKey"
    and "m_nConsecutiveIdenticalIndexKeysSeenAtEnd h < mc"
  shows "indexLoop opCtx iam mc endKey i run h =
     (None, foldl (foldKey iam endKey) h
              (take (nat (mc - m_nConsecutiveIdenticalIndexKeysSeenAtEnd h)) run))"
  using assms(2,3)
proof (induction run arbitrary: i h)
  case Nil
  show ?case by simp
next
  case (Cons e run)
  have ok: "isOK (checkForInterruptNoAssert opCtx i)" using assms(1) by simp
  have e: "keyString e = endKey" using Cons.prems(1) by simp
  have n: "m_nConsecutiveIdenticalIndexKeysSeenAtEnd (foldKey iam endKey h e) =
             m_nConsecutiveIdenticalIndexKeysSeenAtEnd h + 1"
    using e by (simp add: foldKey_fields)
  obtain d where d: "nat (mc - m_nConsecutiveIdenticalIndexKeysSeenAtEnd h) = Suc d"
    "d = nat (mc - (m_nConsecutiveIdenticalIndexKeysSeenAtEnd h + 1))"
    using Cons.prems(2) by (cases "nat (mc - m_nConsecutiveIdenticalIndexKeysSeenAtEnd h)") auto
  show ?case
  proof (cases "mc \<le> m_nConsecutiveIdenticalIndexKeysSeenAtEnd h + 1")
    case True
    then have "d = 0" using d(2) by simp
    moreover have stop: "mc \<le> m_nConsecutiveIdenticalIndexKeysSeenAtEnd (foldKey iam endKey h e)"
      using True n by simp
    ultimately show ?thesis unfolding indexLoop_stop[OF ok e stop] d(1) by simp
  next
    case False
    then have lt: "m_nConsecutiveIdenticalIndexKeysSeenAtEnd (foldKey iam endKey h e) < mc"
      using n by simp
    then have go: "\<not> (keyString e = endKey \<and>
      mc \<le> m_nConsecutiveIdenticalIndexKeysSeenAtEnd (foldKey iam endKey h e))" by simp
    from Cons.IH[OF _ lt] Cons.prems(1)
    have "indexLoop opCtx iam mc endKey (Suc i) run (foldKey iam endKey h e) =
            (None, foldl (foldKey iam endKey) (foldKey iam endKey h e) (take d run))"
      using n d(2) by simp
    then show ?thesis unfolding indexLoop_go[OF ok go] d(1) by simp
  qed
qed

lemma indexLoop_append:
  assumes "\<forall>j. isOK (checkForInterruptNoAssert opCtx j)"
    and "\<forall>e \<in> set pre. keyString e \<noteq> endKey"
  shows "indexLoop opCtx iam mc endKey i (pre @ rest) h =
         indexLoop opCtx iam mc endKey (i + length pre) rest (foldl (foldKey iam endKey) h pre)"
  using assms(2)
proof (induction pre arbitrary: i h)
  case Nil
  show ?case by simp
next
  case (Cons e pre)
  have ok: "isOK (checkForInterruptNoAssert opCtx i)" using assms(1) by simp
  have go: "\<not> (keyString e = endKey \<and>
      mc \<le> m_nConsecutiveIdenticalIndexKeysSeenAtEnd (foldKey iam endKey h e))"
    using Cons.prems by simp
  from Cons.IH[of "Suc i" "foldKey iam endKey h e"] Cons.prems
  show ?case using indexLoop_go[OF ok go, of "pre @ rest"] by simp
qed

lemma indexLoop_ceilings:
  "indexLoop opCtx iam mc endKey i es (h\<lparr>m_maxCount := a, m_maxBytes := b\<rparr>) =
     (fst (indexLoop opCtx iam mc endKey i es h),
      (snd (indexLoop opCtx iam mc endKey i es h))\<lparr>m_maxCount := a, m_maxBytes := b\<rparr>)"
proof (induction es arbitrary: i h)
  case Nil
  show ?case by simp
next
  case (Cons e es)
  have f: "foldKey iam endKey (h\<lparr>m_maxCount := a, m_maxBytes := b\<rparr>) e =
           (foldKey iam endKey h e)\<lparr>m_maxCount := a, m_maxBytes := b\<rparr>"
    by (simp add: foldKey_def hashKey_def)
  show ?case
  proof (cases "isOK (checkForInterruptNoAssert opCtx i)")
    case False
    then show ?thesis by (simp add: indexLoop_interrupted)
  next
    case True
    show ?thesis unfolding indexLoop_step[OF True] f using Cons.IH by simp
  qed
qed

lemmas index_eval_defs = hashForExtraIndexKeysCheck_def indexLoop.simps findIndexByName_def
  cursorEntries_def entryBefore_def md5_append_def md5_init_state_def Status_OK_def isOK_def
  keysSeen_def bytesSeen_def lastKeySeen_def nConsecutiveIdenticalIndexKeysSeenAtEnd_def
  ex_dupIndex_def ex_indexHasher_def ex_index_def ex_idIndex_def ex_coll_def ex_opCtx_def
  ex_key_def ex_resetToKey_def ex_toBsonSafe_def ex_extraKeysParams_def newHasher_def Let_def

lemma hashForExtraIndexKeysCheck_found:
  assumes "m_indexName h = Some name" and "findIndexByName collection name = Some iam"
  shows "hashForExtraIndexKeysCheck opCtx mc collection batchStart batchEnd h =
     (case indexLoop opCtx iam mc (resetToKey iam batchEnd) 0
             (cursorEntries (sortedData iam) (resetToKey iam batchStart)
                (resetToKey iam batchEnd))
             (h\<lparr>m_nConsecutiveIdenticalIndexKeysSeenAtEnd := 0\<rparr>) of
        (Some e, h') \<Rightarrow> (Threw e, h')
      | (None, h') \<Rightarrow>
          (Returned Status_OK,
           if m_countKeysSeen h' = 0 then h'\<lparr>m_lastKeySeen := m_maxKey h'\<rparr> else h'))"
  using assms by (simp add: hashForExtraIndexKeysCheck_def Let_def)

text \<open>The run of entries with the end key at the tail of a sorted cursor, consumed up
  to the ceiling.\<close>

lemma tail_run_consumed:
  assumes "m_indexName h = Some name"
    and "findIndexByName collection name = Some iam"
    and "cursorEntries (sortedData iam) (resetToKey iam batchStart) (resetToKey iam batchEnd) =
           pre @ run"
    and "\<forall>e \<in> set pre. keyString e \<noteq> resetToKey iam batchEnd"
    and "\<forall>e \<in> set run. keyString e = resetToKey iam batchEnd"
    and "\<forall>j. isOK (checkForInterruptNoAssert opCtx j)"
    and "1 \<le> maxConsecutive"
  shows "case hashForExtraIndexKeysCheck opCtx maxConsecutive collection batchStart batchEnd h of
      (r, h') \<Rightarrow>
        r = Returned Status_OK \<and>
        m_state h' = m_state h @ concat (map keyString (pre @ take (nat maxConsecutive) run)) \<and>
        keysSeen h' = keysSeen h + int (length pre + min (length run) (nat maxConsecutive)) \<and>
        nConsecutiveIdenticalIndexKeysSeenAtEnd h' = int (min (length run) (nat maxConsecutive))"
proof -
  let ?end = "resetToKey iam batchEnd"
  let ?h0 = "h\<lparr>m_nConsecutiveIdenticalIndexKeysSeenAtEnd := 0\<rparr>"
  let ?h1 = "foldl (foldKey iam ?end) ?h0 pre"
  have none: "filter (\<lambda>e. keyString e = ?end) pre = []"
    using assms(4) by (simp add: filter_empty_conv)
  have all: "filter (\<lambda>e. keyString e = ?end) (take (nat maxConsecutive) run) =
             take (nat maxConsecutive) run"
    using assms(5) by (auto simp: filter_id_conv dest: in_set_takeD)
  have n1: "m_nConsecutiveIdenticalIndexKeysSeenAtEnd ?h1 = 0"
    by (simp add: foldl_foldKey_fields none)
  have "indexLoop opCtx iam maxConsecutive ?end 0 (pre @ run) ?h0 =
        indexLoop opCtx iam maxConsecutive ?end (0 + length pre) run ?h1"
    by (rule indexLoop_append[OF assms(6,4)])
  also have "\<dots> = (None, foldl (foldKey iam ?end) ?h1 (take (nat maxConsecutive) run))"
    using indexLoop_run[OF assms(6,5), of ?h1 maxConsecutive iam "0 + length pre"] n1 assms(7)
    by simp
  also have "foldl (foldKey iam ?end) ?h1 (take (nat maxConsecutive) run) =
             foldl (foldKey iam ?end) ?h0 (pre @ take (nat maxConsecutive) run)"
    by simp
  finally have loop: "indexLoop opCtx iam maxConsecutive ?end 0 (pre @ run) ?h0 =
     (None, foldl (foldKey iam ?end) ?h0 (pre @ take (nat maxConsecutive) run))" .
  show ?thesis
    unfolding hashForExtraIndexKeysCheck_found[OF assms(1,2)] assms(3) loop
    by (simp add: foldl_foldKey_fields keysSeen_def nConsecutiveIdenticalIndexKeysSeenAtEnd_def
        none all min_def del: foldl_append)
qed

lemma key_string_compare_antisym:
  "key_string_compare a b \<le> 0 \<Longrightarrow> key_string_compare b a \<le> 0 \<Longrightarrow> a = b"
  by (induction a b rule: key_string_compare.induct) (auto split: if_splits)

lemma cursorEntries_sorted:
  assumes "sortedIndex table"
  shows "sortedIndex (cursorEntries table seekKey endKey)"
proof -
  have "sortedIndex (dropWhile (\<lambda>e. entryBefore e (seekKey, None)) table)"
    using assms unfolding sortedIndex_def
    by (subst dropWhile_eq_drop) (rule sorted_wrt_drop)
  then show ?thesis
    unfolding sortedIndex_def cursorEntries_def
    by (subst takeWhile_eq_take) (rule sorted_wrt_take)
qed

lemma cursorEntries_le_end:
  "e \<in> set (cursorEntries table seekKey endKey) \<Longrightarrow>
   key_string_compare (keyString e) endKey \<le> 0"
  unfolding cursorEntries_def by (auto dest: set_takeWhileD)

lemma tailRun_all_end:
  assumes "sortedIndex es"
    and "\<forall>e \<in> set es. key_string_compare (keyString e) endKey \<le> 0"
  shows "\<forall>e \<in> set (tailRun endKey es). keyString e = endKey"
proof (cases "tailRun endKey es")
  case Nil
  then show ?thesis by simp
next
  case (Cons y ys)
  have y: "keyString y = endKey"
    using Cons hd_dropWhile[of "\<lambda>e. keyString e \<noteq> endKey" es]
    by (auto simp: tailRun_def)
  have "sorted_wrt (\<lambda>a b. key_string_compare (keyString a) (keyString b) \<le> 0) (y # ys)"
    using assms(1) Cons unfolding sortedIndex_def tailRun_def
    by (metis dropWhile_eq_drop sorted_wrt_drop)
  then have le: "\<forall>z \<in> set ys. key_string_compare endKey (keyString z) \<le> 0"
    using y by auto
  have sub: "set ys \<subseteq> set es"
    using Cons set_dropWhileD[of _ "\<lambda>e. keyString e \<noteq> endKey" es]
    by (auto simp: tailRun_def)
  have "\<forall>z \<in> set ys. keyString z = endKey"
    using le sub assms(2) key_string_compare_antisym by blast
  with y show ?thesis by (simp add: Cons)
qed

lemma beforeRun_tailRun:
  "beforeRun endKey es @ tailRun endKey es = es"
  "\<forall>e \<in> set (beforeRun endKey es). keyString e \<noteq> endKey"
  by (auto simp: beforeRun_def tailRun_def dest: set_takeWhileD)

text \<open>
  C7. Let the index be sorted by key. Of the entries the cursor of the batch yields,
  those from the first one with the end key of the batch on all have that key, compared
  bytewise without row-identifier: they are the run at the tail of the batch. With no
  interruption and a ceiling \<open>maxConsecutive\<close> of at least 1, the hash consumes every
  entry before the run and the first \<open>maxConsecutive\<close> entries of the run (the whole
  run when it is not longer than the ceiling), and the count of consecutive identical
  keys at the end is the number of entries of the run consumed.
\<close>

theorem duplicate_run_consumed_up_to_ceiling:
  assumes "m_indexName h = Some name"
    and "findIndexByName collection name = Some iam"
    and "sortedIndex (sortedData iam)"
    and "\<forall>j. isOK (checkForInterruptNoAssert opCtx j)"
    and "1 \<le> maxConsecutive"
  shows "let endKey = resetToKey iam batchEnd;
             es = cursorEntries (sortedData iam) (resetToKey iam batchStart) endKey;
             pre = beforeRun endKey es;
             run = tailRun endKey es
         in es = pre @ run \<and>
            (\<forall>e \<in> set pre. keyString e \<noteq> endKey) \<and>
            (\<forall>e \<in> set run. keyString e = endKey) \<and>
            (case hashForExtraIndexKeysCheck opCtx maxConsecutive collection batchStart
                    batchEnd h of
               (r, h') \<Rightarrow>
                 r = Returned Status_OK \<and>
                 m_state h' =
                   m_state h @ concat (map keyString (pre @ take (nat maxConsecutive) run)) \<and>
                 keysSeen h' =
                   keysSeen h + int (length pre + min (length run) (nat maxConsecutive)) \<and>
                 nConsecutiveIdenticalIndexKeysSeenAtEnd h' =
                   int (min (length run) (nat maxConsecutive)))"
proof -
  define endKey where "endKey = resetToKey iam batchEnd"
  define es where "es = cursorEntries (sortedData iam) (resetToKey iam batchStart) endKey"
  have sorted: "sortedIndex es"
    unfolding es_def by (rule cursorEntries_sorted[OF assms(3)])
  have le: "\<forall>e \<in> set es. key_string_compare (keyString e) endKey \<le> 0"
    unfolding es_def using cursorEntries_le_end by blast
  have split: "es = beforeRun endKey es @ tailRun endKey es"
    by (simp add: beforeRun_tailRun(1))
  have pre: "\<forall>e \<in> set (beforeRun endKey es). keyString e \<noteq> endKey"
    by (rule beforeRun_tailRun(2))
  have run: "\<forall>e \<in> set (tailRun endKey es). keyString e = endKey"
    by (rule tailRun_all_end[OF sorted le])
  have cur: "cursorEntries (sortedData iam) (resetToKey iam batchStart)
          (resetToKey iam batchEnd) =
          beforeRun (resetToKey iam batchEnd) es @ tailRun (resetToKey iam batchEnd) es"
    using split unfolding es_def endKey_def by simp
  have "case hashForExtraIndexKeysCheck opCtx maxConsecutive collection batchStart
               batchEnd h of
          (r, h') \<Rightarrow>
            r = Returned Status_OK \<and>
            m_state h' =
              m_state h @
              concat (map keyString (beforeRun (resetToKey iam batchEnd) es @
                take (nat maxConsecutive) (tailRun (resetToKey iam batchEnd) es))) \<and>
            keysSeen h' =
              keysSeen h + int (length (beforeRun (resetToKey iam batchEnd) es) +
                min (length (tailRun (resetToKey iam batchEnd) es)) (nat maxConsecutive)) \<and>
            nConsecutiveIdenticalIndexKeysSeenAtEnd h' =
              int (min (length (tailRun (resetToKey iam batchEnd) es)) (nat maxConsecutive))"
    by (rule tail_run_consumed[OF assms(1,2) cur pre[unfolded endKey_def]
          run[unfolded endKey_def] assms(4,5)])
  with split pre run show ?thesis
    unfolding Let_def es_def endKey_def by blast
qed

theorem duplicate_run_consumed_up_to_ceiling_witness:
  "sortedIndex (sortedData ex_dupIndex) \<and>
   cursorEntries (sortedData ex_dupIndex) (resetToKey ex_dupIndex (ex_key 1))
     (resetToKey ex_dupIndex (ex_key 3)) =
     [\<lparr> keyString = [1], loc = 10 \<rparr>, \<lparr> keyString = [3], loc = 11 \<rparr>,
      \<lparr> keyString = [3], loc = 12 \<rparr>, \<lparr> keyString = [3], loc = 13 \<rparr>] \<and>
   (case hashForExtraIndexKeysCheck ex_opCtx 1000 (ex_coll [ex_dupIndex] Map.empty [])
           (ex_key 1) (ex_key 3) (ex_indexHasher (ex_key 3) 3 1000) of
      (r, h') \<Rightarrow>
        r = Returned Status_OK \<and> m_state h' = [1, 3, 3, 3] \<and> keysSeen h' = 4 \<and>
        nConsecutiveIdenticalIndexKeysSeenAtEnd h' = 3) \<and>
   (case hashForExtraIndexKeysCheck ex_opCtx 2 (ex_coll [ex_dupIndex] Map.empty [])
           (ex_key 1) (ex_key 3) (ex_indexHasher (ex_key 3) 3 1000) of
      (r, h') \<Rightarrow>
        r = Returned Status_OK \<and> m_state h' = [1, 3, 3] \<and> keysSeen h' = 3 \<and>
        nConsecutiveIdenticalIndexKeysSeenAtEnd h' = 2)"
proof -
  let ?c = "ex_coll [ex_dupIndex] Map.empty []"
  let ?h = "ex_indexHasher (ex_key 3) 3 1000"
  have a: "m_indexName ?h = Some ''a_1''" by (simp add: ex_indexHasher_def newHasher_def)
  have b: "findIndexByName ?c ''a_1'' = Some ex_dupIndex"
    by (simp add: findIndexByName_def ex_coll_def ex_idIndex_def ex_dupIndex_def ex_index_def)
  have s: "sortedIndex (sortedData ex_dupIndex)"
    by (simp add: sortedIndex_def ex_dupIndex_def ex_index_def)
  have c: "cursorEntries (sortedData ex_dupIndex) (resetToKey ex_dupIndex (ex_key 1))
     (resetToKey ex_dupIndex (ex_key 3)) =
     [\<lparr> keyString = [1], loc = 10 \<rparr>, \<lparr> keyString = [3], loc = 11 \<rparr>,
      \<lparr> keyString = [3], loc = 12 \<rparr>, \<lparr> keyString = [3], loc = 13 \<rparr>]"
    by (simp add: index_eval_defs)
  have k: "resetToKey ex_dupIndex (ex_key 3) = [3]"
    by (simp add: index_eval_defs)
  have f: "\<forall>j. isOK (checkForInterruptNoAssert ex_opCtx j)"
    by (simp add: ex_opCtx_def isOK_def Status_OK_def)
  have z: "m_state ?h = []" "keysSeen ?h = 0"
    by (simp_all add: ex_indexHasher_def newHasher_def md5_init_state_def keysSeen_def)
  have c3: "cursorEntries (sortedData ex_dupIndex) (resetToKey ex_dupIndex (ex_key 1)) [3] =
     [\<lparr> keyString = [1], loc = 10 \<rparr>, \<lparr> keyString = [3], loc = 11 \<rparr>,
      \<lparr> keyString = [3], loc = 12 \<rparr>, \<lparr> keyString = [3], loc = 13 \<rparr>]"
    using c unfolding k .
  have br: "beforeRun [3]
     [\<lparr> keyString = [1], loc = 10 \<rparr>, \<lparr> keyString = [3], loc = 11 \<rparr>,
      \<lparr> keyString = [3], loc = 12 \<rparr>, \<lparr> keyString = [3], loc = 13 \<rparr>] =
     [\<lparr> keyString = [1::byte], loc = 10 \<rparr>]"
    by (simp add: beforeRun_def)
  have tr: "tailRun [3]
     [\<lparr> keyString = [1], loc = 10 \<rparr>, \<lparr> keyString = [3], loc = 11 \<rparr>,
      \<lparr> keyString = [3], loc = 12 \<rparr>, \<lparr> keyString = [3], loc = 13 \<rparr>] =
     [\<lparr> keyString = [3::byte], loc = 11 \<rparr>, \<lparr> keyString = [3], loc = 12 \<rparr>,
      \<lparr> keyString = [3], loc = 13 \<rparr>]"
    by (simp add: tailRun_def)
  have o1: "(1::int) \<le> 1000" and o2: "(1::int) \<le> 2" by simp_all
  have w1: "case hashForExtraIndexKeysCheck ex_opCtx 1000 ?c (ex_key 1) (ex_key 3) ?h of
      (r, h') \<Rightarrow>
        r = Returned Status_OK \<and> m_state h' = [1, 3, 3, 3] \<and> keysSeen h' = 4 \<and>
        nConsecutiveIdenticalIndexKeysSeenAtEnd h' = 3"
    using duplicate_run_consumed_up_to_ceiling[OF a b s f o1, where batchStart = "ex_key 1"
        and batchEnd = "ex_key 3", unfolded Let_def k c3 br tr z]
    by (simp split: prod.splits)
  have w2: "case hashForExtraIndexKeysCheck ex_opCtx 2 ?c (ex_key 1) (ex_key 3) ?h of
      (r, h') \<Rightarrow>
        r = Returned Status_OK \<and> m_state h' = [1, 3, 3] \<and> keysSeen h' = 3 \<and>
        nConsecutiveIdenticalIndexKeysSeenAtEnd h' = 2"
    using duplicate_run_consumed_up_to_ceiling[OF a b s f o2, where batchStart = "ex_key 1"
        and batchEnd = "ex_key 3", unfolded Let_def k c3 br tr z]
    by (simp split: prod.splits)
  show ?thesis using s c w1 w2 by simp
qed

text \<open>
  C8. A hasher set up for an index holds the \<open>end\<close> argument of its constructor as its
  maximal key. When the cursor of the batch yields no entry, the index hash returns OK
  with no key seen and the last key seen set to that maximal key.
\<close>

theorem empty_index_range_lastKey_is_maxKey:
  assumes "findIndexByName collection name = Some iam"
    and "cursorEntries (sortedData iam) (resetToKey iam batchStart) (resetToKey iam batchEnd) = []"
  shows "\<exists>h. DbCheckHasher_new collection start end parameters (Some name) maxCount maxBytes =
               Returned h \<and>
             m_maxKey h = end \<and>
             (case hashForExtraIndexKeysCheck opCtx maxConsecutive collection batchStart
                     batchEnd h of
                (r, h') \<Rightarrow> r = Returned Status_OK \<and> keysSeen h' = 0 \<and> lastKeySeen h' = end)"
proof -
  let ?h = "newHasher end parameters (Some name) maxCount maxBytes None
              (if missingKeysMode parameters
               then filter (\<lambda>entry. \<not> isIdIndex entry) (indexCatalog collection) else [])"
  have new: "DbCheckHasher_new collection start end parameters (Some name) maxCount maxBytes =
               Returned ?h"
    by (simp add: DbCheckHasher_new_def Let_def)
  have name: "m_indexName ?h = Some name" and maxKey: "m_maxKey ?h = end"
    and zero: "m_countKeysSeen ?h = 0"
    by (simp_all add: newHasher_def)
  have "case hashForExtraIndexKeysCheck opCtx maxConsecutive collection batchStart batchEnd ?h of
          (r, h') \<Rightarrow> r = Returned Status_OK \<and> keysSeen h' = 0 \<and> lastKeySeen h' = end"
    unfolding hashForExtraIndexKeysCheck_found[OF name assms(1)] assms(2)
    using maxKey zero by (simp add: keysSeen_def lastKeySeen_def)
  with new maxKey show ?thesis by (intro exI[of _ ?h]) simp
qed

theorem empty_index_range_lastKey_is_maxKey_witness:
  "findIndexByName (ex_coll [ex_dupIndex] Map.empty []) ''a_1'' = Some ex_dupIndex \<and>
   cursorEntries (sortedData ex_dupIndex) (resetToKey ex_dupIndex (ex_key 5))
     (resetToKey ex_dupIndex (ex_key 7)) = [] \<and>
   (\<exists>h. DbCheckHasher_new (ex_coll [ex_dupIndex] Map.empty []) (ex_key 5) (ex_key 7)
           (Some ex_extraKeysParams) (Some ''a_1'') int64_max int64_max = Returned h \<and>
        m_maxKey h = ex_key 7 \<and>
        (case hashForExtraIndexKeysCheck ex_opCtx 1000 (ex_coll [ex_dupIndex] Map.empty [])
                (ex_key 5) (ex_key 7) h of
           (r, h') \<Rightarrow> r = Returned Status_OK \<and> keysSeen h' = 0 \<and> lastKeySeen h' = ex_key 7))"
proof -
  have a: "findIndexByName (ex_coll [ex_dupIndex] Map.empty []) ''a_1'' = Some ex_dupIndex"
    by (simp add: findIndexByName_def ex_coll_def ex_idIndex_def ex_dupIndex_def ex_index_def)
  have b: "cursorEntries (sortedData ex_dupIndex) (resetToKey ex_dupIndex (ex_key 5))
     (resetToKey ex_dupIndex (ex_key 7)) = []"
    by (simp add: index_eval_defs)
  show ?thesis
    using empty_index_range_lastKey_is_maxKey[OF a b, of "ex_key 5" "ex_key 7"
        "Some ex_extraKeysParams" int64_max int64_max ex_opCtx 1000] a b
    by simp
qed

text \<open>
  C10. The index hash does not read the ceilings \<open>maxCount\<close> and \<open>maxBytes\<close> of the
  hasher: with other ceilings it gives the same result, the ceilings apart. It folds
  the keys of a prefix of the entries the cursor yields from the seek position through
  the inclusive end position into the digest, and counts them; the prefix is all the
  entries, unless an interruption check failed (the hash throws its status) or the count
  of keys identical to the end key has reached the ceiling
  \<open>maxConsecutive\<close>.
\<close>

theorem index_hash_ignores_maxCount_maxBytes:
  assumes "m_indexName h = Some name"
    and "findIndexByName collection name = Some iam"
  shows "hashForExtraIndexKeysCheck opCtx maxConsecutive collection batchStart batchEnd
           (h\<lparr>m_maxCount := a, m_maxBytes := b\<rparr>) =
         (case hashForExtraIndexKeysCheck opCtx maxConsecutive collection batchStart batchEnd h of
            (r, h') \<Rightarrow> (r, h'\<lparr>m_maxCount := a, m_maxBytes := b\<rparr>)) \<and>
         (case hashForExtraIndexKeysCheck opCtx maxConsecutive collection batchStart batchEnd h of
            (r, h') \<Rightarrow>
              \<exists>k \<le> length (cursorEntries (sortedData iam) (resetToKey iam batchStart)
                              (resetToKey iam batchEnd)).
                m_state h' =
                  m_state h @
                  concat (map keyString
                    (take k (cursorEntries (sortedData iam) (resetToKey iam batchStart)
                               (resetToKey iam batchEnd)))) \<and>
                keysSeen h' = keysSeen h + int k \<and>
                (k = length (cursorEntries (sortedData iam) (resetToKey iam batchStart)
                               (resetToKey iam batchEnd)) \<or>
                 (r = Returned Status_OK \<and>
                  maxConsecutive \<le> nConsecutiveIdenticalIndexKeysSeenAtEnd h') \<or>
                 (\<exists>j. r = Threw (checkForInterruptNoAssert opCtx j) \<and>
                      \<not> isOK (checkForInterruptNoAssert opCtx j))))"
proof -
  let ?end = "resetToKey iam batchEnd"
  let ?es = "cursorEntries (sortedData iam) (resetToKey iam batchStart) ?end"
  let ?h0 = "h\<lparr>m_nConsecutiveIdenticalIndexKeysSeenAtEnd := 0\<rparr>"
  let ?loop = "indexLoop opCtx iam maxConsecutive ?end 0 ?es ?h0"
  have name': "m_indexName (h\<lparr>m_maxCount := a, m_maxBytes := b\<rparr>) = Some name"
    using assms(1) by simp
  have swap: "(h\<lparr>m_maxCount := a, m_maxBytes := b\<rparr>)
                \<lparr>m_nConsecutiveIdenticalIndexKeysSeenAtEnd := 0\<rparr> =
              ?h0\<lparr>m_maxCount := a, m_maxBytes := b\<rparr>"
    by simp
  have first: "hashForExtraIndexKeysCheck opCtx maxConsecutive collection batchStart batchEnd
           (h\<lparr>m_maxCount := a, m_maxBytes := b\<rparr>) =
         (case hashForExtraIndexKeysCheck opCtx maxConsecutive collection batchStart batchEnd h of
            (r, h') \<Rightarrow> (r, h'\<lparr>m_maxCount := a, m_maxBytes := b\<rparr>))"
    unfolding hashForExtraIndexKeysCheck_found[OF name' assms(2)]
      hashForExtraIndexKeysCheck_found[OF assms(1,2)] swap indexLoop_ceilings
    by (cases ?loop) (auto split: option.splits)
  from indexLoop_prefix[of ?es opCtx iam maxConsecutive ?end 0 ?h0]
  obtain k where k: "k \<le> length ?es" "snd ?loop = foldl (foldKey iam ?end) ?h0 (take k ?es)"
    "(case fst ?loop of
        None \<Rightarrow> k = length ?es \<or>
                maxConsecutive \<le> m_nConsecutiveIdenticalIndexKeysSeenAtEnd (snd ?loop)
      | Some e \<Rightarrow> \<not> isOK e \<and> (\<exists>j. e = checkForInterruptNoAssert opCtx j))"
    by blast
  have second: "case hashForExtraIndexKeysCheck opCtx maxConsecutive collection batchStart
                       batchEnd h of
      (r, h') \<Rightarrow>
        \<exists>k \<le> length ?es.
          m_state h' = m_state h @ concat (map keyString (take k ?es)) \<and>
          keysSeen h' = keysSeen h + int k \<and>
          (k = length ?es \<or>
           (r = Returned Status_OK \<and>
            maxConsecutive \<le> nConsecutiveIdenticalIndexKeysSeenAtEnd h') \<or>
           (\<exists>j. r = Threw (checkForInterruptNoAssert opCtx j) \<and>
                \<not> isOK (checkForInterruptNoAssert opCtx j)))"
  proof (cases "fst ?loop")
    case None
    then have l: "?loop = (None, foldl (foldKey iam ?end) ?h0 (take k ?es))"
      using k(2) by (cases ?loop) simp
    have "k = length ?es \<or>
          maxConsecutive \<le> m_nConsecutiveIdenticalIndexKeysSeenAtEnd
                             (foldl (foldKey iam ?end) ?h0 (take k ?es))"
      using k(3) None l by simp
    then show ?thesis
      unfolding hashForExtraIndexKeysCheck_found[OF assms(1,2)] l using k(1)
      by (intro case_prodI2 exI[of _ k])
         (auto simp: foldl_foldKey_fields keysSeen_def
            nConsecutiveIdenticalIndexKeysSeenAtEnd_def)
  next
    case (Some e)
    then have l: "?loop = (Some e, foldl (foldKey iam ?end) ?h0 (take k ?es))"
      using k(2) by (cases ?loop) simp
    obtain j where j: "e = checkForInterruptNoAssert opCtx j" "\<not> isOK e"
      using k(3) Some by auto
    show ?thesis
      unfolding hashForExtraIndexKeysCheck_found[OF assms(1,2)] l using k(1) j
      by (intro case_prodI2 exI[of _ k])
         (auto simp: foldl_foldKey_fields keysSeen_def)
  qed
  show ?thesis using first second by blast
qed

theorem index_hash_ignores_maxCount_maxBytes_witness:
  "m_indexName (ex_indexHasher (ex_key 4) 1 1) = Some ''a_1'' \<and>
   findIndexByName (ex_coll [ex_dupIndex] Map.empty []) ''a_1'' = Some ex_dupIndex \<and>
   hashForExtraIndexKeysCheck ex_opCtx 1000 (ex_coll [ex_dupIndex] Map.empty [])
     (ex_key 1) (ex_key 4) (ex_indexHasher (ex_key 4) 1 1) =
   (Returned Status_OK,
    (ex_indexHasher (ex_key 4) int64_max int64_max)
      \<lparr> m_bytesSeen := 5, m_countKeysSeen := 5, m_state := [1, 3, 3, 3, 4],
        m_lastKeySeen := ex_key 4, m_nConsecutiveIdenticalIndexKeysSeenAtEnd := 1,
        m_maxCount := 1, m_maxBytes := 1 \<rparr>)"
proof -
  let ?c = "ex_coll [ex_dupIndex] Map.empty []"
  have a: "m_indexName (ex_indexHasher (ex_key 4) int64_max int64_max) = Some ''a_1''"
    and a': "m_indexName (ex_indexHasher (ex_key 4) 1 1) = Some ''a_1''"
    by (simp_all add: ex_indexHasher_def newHasher_def)
  have b: "findIndexByName ?c ''a_1'' = Some ex_dupIndex"
    by (simp add: findIndexByName_def ex_coll_def ex_idIndex_def ex_dupIndex_def ex_index_def)
  have h: "ex_indexHasher (ex_key 4) 1 1 =
           (ex_indexHasher (ex_key 4) int64_max int64_max)\<lparr>m_maxCount := 1, m_maxBytes := 1\<rparr>"
    by (simp add: ex_indexHasher_def newHasher_def)
  have run: "hashForExtraIndexKeysCheck ex_opCtx 1000 ?c (ex_key 1) (ex_key 4)
               (ex_indexHasher (ex_key 4) int64_max int64_max) =
             (Returned Status_OK,
              (ex_indexHasher (ex_key 4) int64_max int64_max)
                \<lparr> m_bytesSeen := 5, m_countKeysSeen := 5, m_state := [1, 3, 3, 3, 4],
                  m_lastKeySeen := ex_key 4,
                  m_nConsecutiveIdenticalIndexKeysSeenAtEnd := 1 \<rparr>)"
    by (simp add: index_eval_defs)
  show ?thesis
    using index_hash_ignores_maxCount_maxBytes[OF a b, of ex_opCtx 1000 "ex_key 1" "ex_key 4" 1 1]
      a' b
    unfolding h[symmetric] run by simp
qed

subsection \<open>Two runs of a hash\<close>

text \<open>The keys an index hash consumes, read off the keys of the index alone.\<close>

lemma cursorEntries_keys:
  "map keyString (cursorEntries table seekKey endKey) =
     takeWhile (\<lambda>k. key_string_compare k endKey \<le> 0)
       (dropWhile (\<lambda>k. key_string_compare k seekKey < 0) (map keyString table))"
proof -
  have before: "(\<lambda>e. entryBefore e (seekKey, None)) =
                (\<lambda>k. key_string_compare k seekKey < 0) \<circ> keyString"
    by (auto simp: entryBefore_def Let_def fun_eq_iff)
  have upto: "(\<lambda>e. key_string_compare (keyString e) endKey \<le> 0) =
              (\<lambda>k. key_string_compare k endKey \<le> 0) \<circ> keyString"
    by (simp add: fun_eq_iff)
  show ?thesis
    unfolding cursorEntries_def before upto by (simp only: takeWhile_map dropWhile_map)
qed

lemma beforeRun_keys:
  "map keyString (beforeRun endKey es) = takeWhile (\<lambda>k. k \<noteq> endKey) (map keyString es)"
  by (simp add: beforeRun_def takeWhile_map comp_def)

lemma tailRun_keys:
  "map keyString (tailRun endKey es) = dropWhile (\<lambda>k. k \<noteq> endKey) (map keyString es)"
  by (simp add: tailRun_def dropWhile_map comp_def)

lemma consumedKeys_prefix:
  "consumedKeys maxConsecutive endKey keys =
     take (length (takeWhile (\<lambda>k. k \<noteq> endKey) keys) + nat maxConsecutive) keys"
proof -
  let ?n = "length (takeWhile (\<lambda>k. k \<noteq> endKey) keys)"
  have "takeWhile (\<lambda>k. k \<noteq> endKey) keys = take ?n keys"
    by (rule takeWhile_eq_take)
  moreover have "dropWhile (\<lambda>k. k \<noteq> endKey) keys = drop ?n keys"
    by (rule dropWhile_eq_drop)
  ultimately show ?thesis
    unfolding consumedKeys_def by (metis take_add)
qed

lemma cursorKeys_same:
  assumes "map keyString (sortedData iam1) = map keyString (sortedData iam2)"
    and "resetToKey iam1 = resetToKey iam2"
  shows "cursorKeys iam1 batchStart batchEnd = cursorKeys iam2 batchStart batchEnd"
  using assms by (simp add: cursorKeys_def cursorEntries_keys)

lemma sortedIndex_same:
  assumes "map keyString t1 = map keyString t2" and "sortedIndex t1"
  shows "sortedIndex t2"
proof -
  have "sortedIndex t = sorted_wrt (\<lambda>a b. key_string_compare a b \<le> 0) (map keyString t)" for t
    by (simp add: sortedIndex_def sorted_wrt_map)
  then show ?thesis using assms by simp
qed

lemma hashForExtraIndexKeysCheck_keys:
  assumes "m_indexName h = Some name"
    and "findIndexByName collection name = Some iam"
    and "sortedIndex (sortedData iam)"
    and "\<forall>j. isOK (checkForInterruptNoAssert opCtx j)"
    and "1 \<le> maxConsecutive"
  shows "\<exists>h'.
     hashForExtraIndexKeysCheck opCtx maxConsecutive collection batchStart batchEnd h =
       (Returned Status_OK, h') \<and>
     m_state h' =
       m_state h @ concat (consumedKeys maxConsecutive (resetToKey iam batchEnd)
                             (cursorKeys iam batchStart batchEnd)) \<and>
     keysSeen h' =
       keysSeen h + int (length (consumedKeys maxConsecutive (resetToKey iam batchEnd)
                                   (cursorKeys iam batchStart batchEnd)))"
proof -
  let ?end = "resetToKey iam batchEnd"
  let ?es = "cursorEntries (sortedData iam) (resetToKey iam batchStart) ?end"
  have sorted: "sortedIndex ?es" by (rule cursorEntries_sorted[OF assms(3)])
  have le: "\<forall>e \<in> set ?es. key_string_compare (keyString e) ?end \<le> 0"
    using cursorEntries_le_end by blast
  have cur: "?es = beforeRun ?end ?es @ tailRun ?end ?es"
    by (simp add: beforeRun_tailRun(1))
  have pre: "\<forall>e \<in> set (beforeRun ?end ?es). keyString e \<noteq> ?end"
    by (rule beforeRun_tailRun(2))
  have run: "\<forall>e \<in> set (tailRun ?end ?es). keyString e = ?end"
    by (rule tailRun_all_end[OF sorted le])
  have keys: "map keyString (beforeRun ?end ?es @ take (nat maxConsecutive) (tailRun ?end ?es)) =
              consumedKeys maxConsecutive ?end (cursorKeys iam batchStart batchEnd)"
  proof -
    have "map keyString (beforeRun ?end ?es @ take (nat maxConsecutive) (tailRun ?end ?es)) =
          map keyString (beforeRun ?end ?es) @
          take (nat maxConsecutive) (map keyString (tailRun ?end ?es))"
      by (simp add: take_map)
    then show ?thesis
      unfolding beforeRun_keys tailRun_keys consumedKeys_def cursorKeys_def .
  qed
  have len: "length (consumedKeys maxConsecutive ?end (cursorKeys iam batchStart batchEnd)) =
             length (beforeRun ?end ?es) + min (length (tailRun ?end ?es)) (nat maxConsecutive)"
    unfolding keys[symmetric] by simp
  obtain r h' where res:
    "hashForExtraIndexKeysCheck opCtx maxConsecutive collection batchStart batchEnd h = (r, h')"
    by (cases "hashForExtraIndexKeysCheck opCtx maxConsecutive collection batchStart batchEnd h")
       auto
  from tail_run_consumed[OF assms(1,2) cur pre run assms(4,5)]
  have "r = Returned Status_OK"
    "m_state h' = m_state h @ concat (map keyString
        (beforeRun ?end ?es @ take (nat maxConsecutive) (tailRun ?end ?es)))"
    "keysSeen h' = keysSeen h + int (length (beforeRun ?end ?es) +
        min (length (tailRun ?end ?es)) (nat maxConsecutive))"
    unfolding res by simp_all
  then show ?thesis unfolding res keys len by simp
qed

text \<open>
  C1 (as stated, refuted). Two runs of the collection hash from the same hasher, over
  the same collection, in the same mode, with the same ceilings and the same deadline
  100. In the first the clock stands at 200 when the first document has been hashed,
  and the scan stops there; in the second the clock stands at 0 and the scan reaches
  the end. Both return OK; the digest inputs (and the documents seen) differ.
\<close>

theorem deadline_changes_digest:
  "(case hashForCollectionCheck ex_slowCtx ex_bson (ex_coll [] ex_store ex_twoDocScan) 100
           (ex_hasher None int64_max int64_max ex_twoDocScan []) [] of
      (r, h, log) \<Rightarrow> r = Returned Status_OK \<and> m_state h = [2, 20, 21] \<and> docsSeen h = 1) \<and>
   (case hashForCollectionCheck ex_opCtx ex_bson (ex_coll [] ex_store ex_twoDocScan) 100
           (ex_hasher None int64_max int64_max ex_twoDocScan []) [] of
      (r, h, log) \<Rightarrow>
        r = Returned Status_OK \<and> m_state h = [2, 20, 21, 1, 10] \<and> docsSeen h = 2) \<and>
   m_state (fst (snd (hashForCollectionCheck ex_slowCtx ex_bson
                        (ex_coll [] ex_store ex_twoDocScan) 100
                        (ex_hasher None int64_max int64_max ex_twoDocScan []) []))) \<noteq>
   m_state (fst (snd (hashForCollectionCheck ex_opCtx ex_bson
                        (ex_coll [] ex_store ex_twoDocScan) 100
                        (ex_hasher None int64_max int64_max ex_twoDocScan []) [])))"
  by (simp add: ex_defs eval_defs ex_slowCtx_def)

text \<open>
  C1 (amended). Take two nodes, each with a collection, executor, index tables, row
  identifiers, operation context, clock, deadline and health log of its own, and two
  hashers set up alike. Let neither run meet a failed interruption check, and let
  neither clock pass its deadline.

  If the two scans find the same records, byte for byte and in the same order, no
  cursor throws and every found document has an \<^verbatim>\<open>_id\<close> field, both collection
  hashes return OK with the same digest and the same number of documents; the digest
  input is, after what the hashers held before, the raw bytes of the batch of the found
  records: a prefix of them, in the order of the cursor, ending at the first document
  the ceilings refuse.

  If the two index tables are sorted and hold the same keys in the same order, and the
  two indexes build the same key strings, both index hashes over the same range return
  OK with the same digest and the same number of keys; the digest input is, after what
  the hashers held before, the keys the batch consumes: a prefix of the keys of the cursor,
  in the order of the index.
\<close>

theorem same_data_same_digest:
  assumes "\<forall>j. isOK (checkForInterruptNoAssert opCtx1 j)"
    and "\<forall>j. isOK (checkForInterruptNoAssert opCtx2 j)"
    and "\<forall>j. \<not> now opCtx1 j > deadline1"
    and "\<forall>j. \<not> now opCtx2 j > deadline2"
    and "m_exec h1 = Some exec1" and "m_exec h2 = Some exec2"
    and "sameSetup h1 h2"
    and "wellKeyed bson collPtr1 exec1" and "wellKeyed bson collPtr2 exec2"
    and "foundRecords collPtr1 exec1 = foundRecords collPtr2 exec2"
    and "m_indexName g1 = Some name1" and "findIndexByName collection1 name1 = Some iam1"
    and "m_indexName g2 = Some name2" and "findIndexByName collection2 name2 = Some iam2"
    and "sortedIndex (sortedData iam1)"
    and "map keyString (sortedData iam1) = map keyString (sortedData iam2)"
    and "resetToKey iam1 = resetToKey iam2"
    and "m_state g1 = m_state g2" and "keysSeen g1 = keysSeen g2"
    and "1 \<le> maxConsecutive"
  shows "(\<exists>h1' log1' h2' log2'.
            hashForCollectionCheck opCtx1 bson collPtr1 deadline1 h1 log1 =
              (Returned Status_OK, h1', log1') \<and>
            hashForCollectionCheck opCtx2 bson collPtr2 deadline2 h2 log2 =
              (Returned Status_OK, h2', log2') \<and>
            total md5 h1' = total md5 h2' \<and> m_state h1' = m_state h2' \<and>
            docsSeen h1' = docsSeen h2' \<and>
            m_state h1' = m_state h1 @ concat (batchOf bson h1 (foundRecords collPtr1 exec1)) \<and>
            (\<exists>n. batchOf bson h1 (foundRecords collPtr1 exec1) =
                   take n (foundRecords collPtr1 exec1))) \<and>
         (\<exists>g1' g2'.
            hashForExtraIndexKeysCheck opCtx1 maxConsecutive collection1 batchStart batchEnd g1 =
              (Returned Status_OK, g1') \<and>
            hashForExtraIndexKeysCheck opCtx2 maxConsecutive collection2 batchStart batchEnd g2 =
              (Returned Status_OK, g2') \<and>
            total md5 g1' = total md5 g2' \<and> m_state g1' = m_state g2' \<and>
            keysSeen g1' = keysSeen g2' \<and>
            m_state g1' =
              m_state g1 @ concat (consumedKeys maxConsecutive (resetToKey iam1 batchEnd)
                                     (cursorKeys iam1 batchStart batchEnd)) \<and>
            (\<exists>k. consumedKeys maxConsecutive (resetToKey iam1 batchEnd)
                    (cursorKeys iam1 batchStart batchEnd) =
                  take k (cursorKeys iam1 batchStart batchEnd)))"
proof -
  let ?recs = "foundRecords collPtr1 exec1"
  obtain h1' log1' where c1:
    "hashForCollectionCheck opCtx1 bson collPtr1 deadline1 h1 log1 = (Returned Status_OK, h1', log1')"
    "m_state h1' = m_state h1 @ concat (batchOf bson h1 ?recs)"
    "docsSeen h1' = docsSeen h1 + int (length (batchOf bson h1 ?recs))"
    using hashForCollectionCheck_batch[OF assms(5,1,3,8), of log1] by blast
  obtain h2' log2' where c2:
    "hashForCollectionCheck opCtx2 bson collPtr2 deadline2 h2 log2 = (Returned Status_OK, h2', log2')"
    "m_state h2' = m_state h2 @ concat (batchOf bson h2 (foundRecords collPtr2 exec2))"
    "docsSeen h2' = docsSeen h2 + int (length (batchOf bson h2 (foundRecords collPtr2 exec2)))"
    using hashForCollectionCheck_batch[OF assms(6,2,4,9), of log2] by blast
  have b: "batchOf bson h2 (foundRecords collPtr2 exec2) = batchOf bson h1 ?recs"
    unfolding assms(10)[symmetric] by (rule batchOf_sameSetup[OF assms(7), symmetric])
  have s: "m_state h2 = m_state h1" "docsSeen h2 = docsSeen h1"
    using assms(7) by (simp_all add: sameSetup_def docsSeen_def)
  have st: "m_state h1' = m_state h2'" and ds: "docsSeen h1' = docsSeen h2'"
    unfolding c1(2,3) c2(2,3) b s by simp_all
  obtain n where n: "batchOf bson h1 ?recs = take n ?recs"
    using batchOf_prefix by blast
  have coll: "\<exists>h1' log1' h2' log2'.
            hashForCollectionCheck opCtx1 bson collPtr1 deadline1 h1 log1 =
              (Returned Status_OK, h1', log1') \<and>
            hashForCollectionCheck opCtx2 bson collPtr2 deadline2 h2 log2 =
              (Returned Status_OK, h2', log2') \<and>
            total md5 h1' = total md5 h2' \<and> m_state h1' = m_state h2' \<and>
            docsSeen h1' = docsSeen h2' \<and>
            m_state h1' = m_state h1 @ concat (batchOf bson h1 ?recs) \<and>
            (\<exists>n. batchOf bson h1 ?recs = take n ?recs)"
    using c1(1,2) c2(1) st ds n
    by (intro exI[of _ h1'] exI[of _ log1'] exI[of _ h2'] exI[of _ log2'])
       (auto simp: total_def)
  let ?keys = "consumedKeys maxConsecutive (resetToKey iam1 batchEnd)
                 (cursorKeys iam1 batchStart batchEnd)"
  have sorted2: "sortedIndex (sortedData iam2)"
    by (rule sortedIndex_same[OF assms(16,15)])
  obtain g1' where i1:
    "hashForExtraIndexKeysCheck opCtx1 maxConsecutive collection1 batchStart batchEnd g1 =
       (Returned Status_OK, g1')"
    "m_state g1' = m_state g1 @ concat ?keys"
    "keysSeen g1' = keysSeen g1 + int (length ?keys)"
    using hashForExtraIndexKeysCheck_keys[OF assms(11,12,15,1,20)] by blast
  obtain g2' where i2:
    "hashForExtraIndexKeysCheck opCtx2 maxConsecutive collection2 batchStart batchEnd g2 =
       (Returned Status_OK, g2')"
    "m_state g2' = m_state g2 @ concat (consumedKeys maxConsecutive (resetToKey iam2 batchEnd)
                                          (cursorKeys iam2 batchStart batchEnd))"
    "keysSeen g2' = keysSeen g2 + int (length (consumedKeys maxConsecutive
                      (resetToKey iam2 batchEnd) (cursorKeys iam2 batchStart batchEnd)))"
    using hashForExtraIndexKeysCheck_keys[OF assms(13,14) sorted2 assms(2,20)] by blast
  have k: "consumedKeys maxConsecutive (resetToKey iam2 batchEnd)
             (cursorKeys iam2 batchStart batchEnd) = ?keys"
    unfolding cursorKeys_same[OF assms(16,17)] assms(17) ..
  have ist: "m_state g1' = m_state g2'" and iks: "keysSeen g1' = keysSeen g2'"
    unfolding i1(2,3) i2(2,3) k assms(18,19) by simp_all
  have pk: "\<exists>k. ?keys = take k (cursorKeys iam1 batchStart batchEnd)"
    using consumedKeys_prefix by blast
  have idx: "\<exists>g1' g2'.
            hashForExtraIndexKeysCheck opCtx1 maxConsecutive collection1 batchStart batchEnd g1 =
              (Returned Status_OK, g1') \<and>
            hashForExtraIndexKeysCheck opCtx2 maxConsecutive collection2 batchStart batchEnd g2 =
              (Returned Status_OK, g2') \<and>
            total md5 g1' = total md5 g2' \<and> m_state g1' = m_state g2' \<and>
            keysSeen g1' = keysSeen g2' \<and>
            m_state g1' = m_state g1 @ concat ?keys \<and>
            (\<exists>k. ?keys = take k (cursorKeys iam1 batchStart batchEnd))"
    using i1(1,2) i2(1) ist iks pk
    by (intro exI[of _ g1'] exI[of _ g2']) (auto simp: total_def)
  show ?thesis using coll idx by (rule conjI)
qed

theorem same_data_same_digest_witness:
  "(\<forall>j. isOK (checkForInterruptNoAssert ex_opCtx j)) \<and>
   (\<forall>j. isOK (checkForInterruptNoAssert ex_slowCtx j)) \<and>
   (\<forall>j. \<not> now ex_opCtx j > 100) \<and>
   (\<forall>j. \<not> now ex_slowCtx j > Date_t_max) \<and>
   sameSetup (ex_hasher None int64_max int64_max ex_twoDocScan [])
     (ex_hasher None int64_max int64_max ex_otherScan []) \<and>
   wellKeyed ex_bson (ex_coll [] ex_store ex_twoDocScan) ex_twoDocScan \<and>
   wellKeyed ex_bson (ex_coll [] ex_otherStore ex_otherScan) ex_otherScan \<and>
   foundRecords (ex_coll [] ex_store ex_twoDocScan) ex_twoDocScan = [[2, 20, 21], [1, 10]] \<and>
   foundRecords (ex_coll [] ex_otherStore ex_otherScan) ex_otherScan = [[2, 20, 21], [1, 10]] \<and>
   sortedIndex (sortedData ex_dupIndex) \<and>
   map keyString (sortedData ex_dupIndex) = map keyString (sortedData ex_otherDupIndex) \<and>
   sortedData ex_dupIndex \<noteq> sortedData ex_otherDupIndex \<and>
   fst (hashForCollectionCheck ex_slowCtx ex_bson (ex_coll [] ex_otherStore ex_otherScan)
          Date_t_max (ex_hasher None int64_max int64_max ex_otherScan [])
          [dbCheckHealthLogEntry None None None Info [] Scope_Cluster Op_Start None]) =
     Returned Status_OK \<and>
   m_state (fst (snd (hashForCollectionCheck ex_slowCtx ex_bson
                        (ex_coll [] ex_otherStore ex_otherScan) Date_t_max
                        (ex_hasher None int64_max int64_max ex_otherScan [])
                        [dbCheckHealthLogEntry None None None Info [] Scope_Cluster Op_Start
                           None]))) =
     [2, 20, 21, 1, 10] \<and>
   fst (hashForExtraIndexKeysCheck ex_slowCtx 1000 (ex_coll [ex_otherDupIndex] Map.empty [])
          (ex_key 1) (ex_key 3) (ex_indexHasher (ex_key 3) 3 1000)) = Returned Status_OK \<and>
   m_state (snd (hashForExtraIndexKeysCheck ex_slowCtx 1000
                   (ex_coll [ex_otherDupIndex] Map.empty []) (ex_key 1) (ex_key 3)
                   (ex_indexHasher (ex_key 3) 3 1000))) =
     [1, 3, 3, 3]"
proof -
  let ?c1 = "ex_coll [] ex_store ex_twoDocScan"
  let ?c2 = "ex_coll [] ex_otherStore ex_otherScan"
  let ?h1 = "ex_hasher None int64_max int64_max ex_twoDocScan []"
  let ?h2 = "ex_hasher None int64_max int64_max ex_otherScan []"
  let ?i1 = "ex_coll [ex_dupIndex] Map.empty []"
  let ?i2 = "ex_coll [ex_otherDupIndex] Map.empty []"
  let ?g = "ex_indexHasher (ex_key 3) 3 1000"
  let ?log2 = "[dbCheckHealthLogEntry None None None Info [] Scope_Cluster Op_Start None]"
  have a: "\<forall>j. isOK (checkForInterruptNoAssert ex_opCtx j)"
    and b: "\<forall>j. isOK (checkForInterruptNoAssert ex_slowCtx j)"
    and c: "\<forall>j. \<not> now ex_opCtx j > 100"
    and d: "\<forall>j. \<not> now ex_slowCtx j > Date_t_max"
    by (simp_all add: ex_opCtx_def ex_slowCtx_def isOK_def Status_OK_def Date_t_max_def)
  have e1: "m_exec ?h1 = Some ex_twoDocScan" and e2: "m_exec ?h2 = Some ex_otherScan"
    by (simp_all add: ex_hasher_def newHasher_def)
  have s: "sameSetup ?h1 ?h2"
    by (simp add: sameSetup_def sameIndexDefinitions_def ex_hasher_def newHasher_def)
  have w1: "wellKeyed ex_bson ?c1 ex_twoDocScan"
    by (simp add: ex_twoDocScan_def wellKeyed_Advanced wellKeyed_Nil ex_coll_def ex_store_def
        ex_bson_def ex_toBson_def hasField_def)
  have w2: "wellKeyed ex_bson ?c2 ex_otherScan"
    by (simp add: ex_otherScan_def wellKeyed_Advanced wellKeyed_Nil ex_coll_def
        ex_otherStore_def ex_bson_def ex_toBson_def hasField_def)
  have f1: "foundRecords ?c1 ex_twoDocScan = [[2, 20, 21], [1, 10]]"
    by (simp add: foundRecords_def foundRecord_def ex_twoDocScan_def ex_coll_def ex_store_def)
  have f2: "foundRecords ?c2 ex_otherScan = [[2, 20, 21], [1, 10]]"
    by (simp add: foundRecords_def foundRecord_def ex_otherScan_def ex_coll_def
        ex_otherStore_def)
  have n: "m_indexName ?g = Some ''a_1''" by (simp add: ex_indexHasher_def newHasher_def)
  have x1: "findIndexByName ?i1 ''a_1'' = Some ex_dupIndex"
    by (simp add: findIndexByName_def ex_coll_def ex_idIndex_def ex_dupIndex_def ex_index_def)
  have x2: "findIndexByName ?i2 ''a_1'' = Some ex_otherDupIndex"
    by (simp add: findIndexByName_def ex_coll_def ex_idIndex_def ex_otherDupIndex_def
        ex_index_def)
  have so: "sortedIndex (sortedData ex_dupIndex)"
    by (simp add: sortedIndex_def ex_dupIndex_def ex_index_def)
  have km: "map keyString (sortedData ex_dupIndex) = map keyString (sortedData ex_otherDupIndex)"
    and ne: "sortedData ex_dupIndex \<noteq> sortedData ex_otherDupIndex"
    and rk: "resetToKey ex_dupIndex = resetToKey ex_otherDupIndex"
    by (simp_all add: ex_dupIndex_def ex_otherDupIndex_def ex_index_def)
  have o: "(1::int) \<le> 1000" by simp
  have run1: "hashForCollectionCheck ex_opCtx ex_bson ?c1 100 ?h1 [] =
     (Returned Status_OK,
      ?h1\<lparr> m_lastKeySeen := [(''_id'', BMaxKey)], m_countDocsSeen := 2, m_bytesSeen := 5,
           m_state := [2, 20, 21, 1, 10] \<rparr>, [])"
    by (simp add: ex_defs eval_defs)
  have idx1: "hashForExtraIndexKeysCheck ex_opCtx 1000 ?i1 (ex_key 1) (ex_key 3) ?g =
     (Returned Status_OK,
      ?g\<lparr> m_bytesSeen := 4, m_countKeysSeen := 4, m_state := [1, 3, 3, 3],
          m_lastKeySeen := ex_key 3, m_nConsecutiveIdenticalIndexKeysSeenAtEnd := 3 \<rparr>)"
    by (simp add: index_eval_defs)
  have fe: "foundRecords ?c1 ex_twoDocScan = foundRecords ?c2 ex_otherScan"
    unfolding f1 f2 ..
  from same_data_same_digest[where ?log1.0 = "[]" and ?log2.0 = ?log2
      and ?md5.0 = "\<lambda>bytes. []" and batchStart = "ex_key 1" and batchEnd = "ex_key 3",
      OF a b c d e1 e2 s w1 w2 fe n x1 n x2 so km rk refl refl o]
  have "fst (hashForCollectionCheck ex_slowCtx ex_bson ?c2 Date_t_max ?h2 ?log2) =
          Returned Status_OK \<and>
        m_state (fst (snd (hashForCollectionCheck ex_slowCtx ex_bson ?c2 Date_t_max ?h2 ?log2))) =
          [2, 20, 21, 1, 10] \<and>
        fst (hashForExtraIndexKeysCheck ex_slowCtx 1000 ?i2 (ex_key 1) (ex_key 3) ?g) =
          Returned Status_OK \<and>
        m_state (snd (hashForExtraIndexKeysCheck ex_slowCtx 1000 ?i2 (ex_key 1) (ex_key 3) ?g)) =
          [1, 3, 3, 3]"
    unfolding run1 idx1 by auto
  then show ?thesis using a b c d s w1 w2 f1 f2 so km ne by simp
qed

subsection \<open>The batch verifier\<close>













end
